theory Spec2Isabelle
  imports Main
begin

section \<open>The per-connection server of hypercorn's trio backend\<close>

text \<open>
  This theory embeds \<^verbatim>\<open>src/hypercorn/trio/server.py\<close>. The connection object
  talks to three collaborators that are not part of that file: the transport
  (\<^verbatim>\<open>self.stream\<close>), the Protocol Engine (\<^verbatim>\<open>self.protocol\<close>) and the trio
  runtime (nursery, timers). Every call to a collaborator is recorded in a trace, and
  what the collaborator answers is taken from an environment that may depend on the
  whole history, so a theorem quantified over the environment speaks about every
  behaviour of the collaborators.

  A method \<^verbatim>\<open>Server._m\<close> of the source is \<open>Server_m\<close> here, the functions
  \<^verbatim>\<open>_handle\<close> and \<^verbatim>\<open>_call_later\<close> are \<open>handle_app\<close> and \<open>call_later\<close>: a name
  cannot begin with an underscore.
\<close>

subsection \<open>Exceptions and events\<close>

type_synonym bytes = string

text \<open>
  The exception classes the source names, plus one representative for every other
  subclass of \<^verbatim>\<open>Exception\<close> and one for every other \<^verbatim>\<open>BaseException\<close>
  (\<^verbatim>\<open>KeyboardInterrupt\<close>, \<^verbatim>\<open>SystemExit\<close>). \<^verbatim>\<open>trio.Cancelled\<close> and
  \<^verbatim>\<open>trio.MultiError\<close> derive from \<^verbatim>\<open>BaseException\<close>.
\<close>

datatype exn =
    Cancelled
  | MultiError "exn list"
  | BrokenResourceError
  | TooSlowError
  | ClosedResourceError
  | BusyResourceError
  | AttributeError
  | TypeError
  | OtherException string
  | OtherBaseException string

text \<open>\<^verbatim>\<open>isinstance(e, Exception)\<close>, the test of a clause \<^verbatim>\<open>except Exception\<close>.\<close>

fun is_Exception :: "exn \<Rightarrow> bool" where
  "is_Exception Cancelled = False"
| "is_Exception (MultiError es) = False"
| "is_Exception (OtherBaseException s) = False"
| "is_Exception e = True"

fun is_MultiError :: "exn \<Rightarrow> bool" where
  "is_MultiError (MultiError es) = True"
| "is_MultiError e = False"

text \<open>\<^verbatim>\<open>hypercorn.events\<close>: the tagged union the source imports.\<close>

datatype event = RawData bytes | Closed

subsection \<open>Traces, environments and the connection state\<close>

text \<open>One constructor for every call the connection makes to a collaborator.\<close>

datatype action =
    DoHandshake
  | SelectedAlpnProtocol
  | TransportStreamSocket
  | StreamSocket
  | ParseClientAddr
  | ParseServerAddr
  | ProtocolWrapper bool string
  | Initiate
  | Handle event
  | Send event
  | StartSoon
  | ReceiveSome
  | LockAcquire
  | SendAll bytes
  | LockRelease
  | SendEof
  | Aclose
  | Cancel nat
  | NurseryStart
  | OpenMemoryChannel
  | InvokeAsgi
  | LogException string
  | SendSentinel

text \<open>
  What one call of \<^verbatim>\<open>initiate\<close> or \<^verbatim>\<open>handle\<close> makes the Protocol Engine do
  before it returns: it awaits the send callback (\<^verbatim>\<open>Server.protocol_send\<close>), it calls
  the spawn callback (\<^verbatim>\<open>spawn_app\<close>), or it raises.
\<close>

datatype engine_step = Emit event | Spawn | Fail exn

text \<open>
  What one call of \<^verbatim>\<open>self.stream.receive_some(MAX_RECV)\<close> ends with. The reads of a
  connection are a list of outcomes; a read past the end of the list never returns.
\<close>

datatype read_outcome = Data bytes | ReadRaises exn

datatype timer_status = Pending | CancelledTimer | Fired

text \<open>
  The environment. \<open>outcome env tr\<close> is the exception, if any, raised by the call that
  is the last action of the history \<open>tr\<close>; \<open>reaction env tr\<close> is what the engine does in
  the call that ends \<open>tr\<close>; \<open>idle env tr\<close> is the value of \<^verbatim>\<open>self.protocol.idle\<close>
  read after \<open>tr\<close>. \<open>child_errors\<close> are the exceptions that the child tasks of the
  nursery end with, \<open>outer_cancelled\<close> says whether a scope around \<^verbatim>\<open>run\<close> has been
  cancelled.
\<close>

record env =
  outcome :: "action list \<Rightarrow> exn option"
  alpn :: string
  reaction :: "action list \<Rightarrow> engine_step list"
  idle :: "action list \<Rightarrow> bool"
  child_errors :: "exn list"
  outer_cancelled :: bool

text \<open>
  The state of one \<^verbatim>\<open>Server\<close> object and of what it owns: the trace so far, the
  field \<^verbatim>\<open>_keep_alive_timeout_handle\<close> and the status of every timer task started
  (a handle is the index of its timer).
\<close>

record world =
  trace :: "action list"
  keep_alive_timeout_handle :: "nat option"
  timers :: "timer_status list"

datatype result = Return | Raise exn | Blocked

definition new_connection :: world where
  "new_connection = \<lparr>trace = [], keep_alive_timeout_handle = None, timers = []\<rparr>"

definition record_action :: "action \<Rightarrow> world \<Rightarrow> world" where
  "record_action a w = w\<lparr>trace := trace w @ [a]\<rparr>"

definition call :: "env \<Rightarrow> action \<Rightarrow> world \<Rightarrow> result \<times> world" where
  "call env a w =
     (let w' = record_action a w
      in (case outcome env (trace w') of None \<Rightarrow> Return | Some e \<Rightarrow> Raise e, w'))"

subsection \<open>Teardown\<close>

text \<open>The tuple of the \<^verbatim>\<open>except\<close> clause of \<^verbatim>\<open>_close\<close>.\<close>

fun close_swallows :: "exn \<Rightarrow> bool" where
  "close_swallows BrokenResourceError = True"
| "close_swallows AttributeError = True"
| "close_swallows BusyResourceError = True"
| "close_swallows ClosedResourceError = True"
| "close_swallows e = False"

text \<open>\<^verbatim>\<open>Server._close\<close>\<close>

definition Server_close :: "env \<Rightarrow> world \<Rightarrow> result \<times> world" where
  "Server_close env w =
     (case call env SendEof w of
        (Return, w1) \<Rightarrow> call env Aclose w1
      | (Raise e, w1) \<Rightarrow> if close_swallows e then call env Aclose w1 else (Raise e, w1)
      | (Blocked, w1) \<Rightarrow> (Blocked, w1))"

subsection \<open>The idle timer\<close>

text \<open>\<^verbatim>\<open>CancelScope.cancel()\<close> on the scope of timer \<open>h\<close>: only a pending timer changes.\<close>

definition cancel_timer :: "nat \<Rightarrow> world \<Rightarrow> world" where
  "cancel_timer h w =
     (if h < length (timers w) \<and> timers w ! h = Pending
      then w\<lparr>timers := (timers w)[h := CancelledTimer]\<rparr> else w)"

text \<open>
  \<^verbatim>\<open>Server._update_keep_alive_timeout\<close> suspends once, at
  \<^verbatim>\<open>await self.nursery.start(...)\<close>: other tasks of the connection run between its two
  parts. The first part cancels and clears the handle, reads \<^verbatim>\<open>idle\<close> and starts the
  timer task; it yields the handle of the timer it has started, if any. The second part
  is the assignment of that handle to \<^verbatim>\<open>self._keep_alive_timeout_handle\<close>.
\<close>

definition rearm_begin :: "env \<Rightarrow> world \<Rightarrow> (result \<times> nat option) \<times> world" where
  "rearm_begin env w =
     (let w1 = (case keep_alive_timeout_handle w of
                  Some h \<Rightarrow> cancel_timer h (record_action (Cancel h) w)
                | None \<Rightarrow> w);
          w2 = w1\<lparr>keep_alive_timeout_handle := None\<rparr>
      in if idle env (trace w2)
         then (case call env NurseryStart w2 of
                 (Return, w3) \<Rightarrow>
                   ((Return, Some (length (timers w3))), w3\<lparr>timers := timers w3 @ [Pending]\<rparr>)
               | (r, w3) \<Rightarrow> ((r, None), w3))
         else ((Return, None), w2))"

definition rearm_store :: "nat \<Rightarrow> world \<Rightarrow> world" where
  "rearm_store h w = w\<lparr>keep_alive_timeout_handle := Some h\<rparr>"

text \<open>\<^verbatim>\<open>Server._update_keep_alive_timeout\<close> with no other task running in between.\<close>

definition Server_update_keep_alive_timeout :: "env \<Rightarrow> world \<Rightarrow> result \<times> world" where
  "Server_update_keep_alive_timeout env w =
     (case rearm_begin env w of
        ((r, Some h), w1) \<Rightarrow> (r, rearm_store h w1)
      | ((r, None), w1) \<Rightarrow> (r, w1))"

text \<open>
  Rearms of several tasks, interleaved at the suspension: a task begins a rearm, or it
  resumes and stores the handle it was given. The second argument holds, for every
  task, the handle it is still to store.
\<close>

datatype rearm_step = Begin nat | Store nat

fun rearm_schedule ::
  "env \<Rightarrow> rearm_step list \<Rightarrow> (nat \<Rightarrow> nat option) \<Rightarrow> world \<Rightarrow> world" where
  "rearm_schedule env [] started w = w"
| "rearm_schedule env (Begin t # ss) started w =
     (case rearm_begin env w of
        ((r, h), w1) \<Rightarrow> rearm_schedule env ss (started(t := h)) w1)"
| "rearm_schedule env (Store t # ss) started w =
     (case started t of
        Some h \<Rightarrow> rearm_schedule env ss (started(t := None)) (rearm_store h w)
      | None \<Rightarrow> rearm_schedule env ss started w)"

definition nothing_started :: "nat \<Rightarrow> nat option" where
  "nothing_started t = None"

subsection \<open>The outbound writer\<close>

text \<open>
  What the tasks that call \<^verbatim>\<open>protocol_send\<close> share: the connection, and
  \<^verbatim>\<open>self.send_lock\<close> with the task that holds it, if any.
\<close>

record shared =
  conn :: world
  lock_holder :: "nat option"

text \<open>
  Task \<open>t\<close> enters \<^verbatim>\<open>async with self.send_lock\<close>. \<^verbatim>\<open>acquire\<close> is a checkpoint:
  it may raise (a cancellation, before or during the wait), and then the task does not
  get the lock. Otherwise the task waits as long as the lock is held, and takes it
  when it is free.
\<close>

definition lock_acquire :: "env \<Rightarrow> nat \<Rightarrow> shared \<Rightarrow> result \<times> shared" where
  "lock_acquire env t s =
     (case call env LockAcquire (conn s) of
        (Return, w1) \<Rightarrow>
          if lock_holder s \<noteq> None then (Blocked, s)
          else (Return, s\<lparr>conn := w1, lock_holder := Some t\<rparr>)
      | (r, w1) \<Rightarrow> (r, s\<lparr>conn := w1\<rparr>))"

text \<open>
  The task has the lock and awaits \<^verbatim>\<open>self.stream.send_all(event.data)\<close>: from here
  until the write ends, the write is in flight.
\<close>

definition begin_write :: "env \<Rightarrow> nat \<Rightarrow> bytes \<Rightarrow> shared \<Rightarrow> result \<times> shared" where
  "begin_write env t d s =
     (case lock_acquire env t s of
        (Return, s1) \<Rightarrow> (Return, s1\<lparr>conn := record_action (SendAll d) (conn s1)\<rparr>)
      | (r, s1) \<Rightarrow> (r, s1))"

text \<open>
  The write ends: \<^verbatim>\<open>BrokenResourceError\<close> is passed over, and leaving the
  \<^verbatim>\<open>async with\<close> block releases the lock whatever the write ended with.
\<close>

definition end_write :: "env \<Rightarrow> shared \<Rightarrow> result \<times> shared" where
  "end_write env s =
     (let s1 = s\<lparr>conn := record_action LockRelease (conn s), lock_holder := None\<rparr>
      in case outcome env (trace (conn s)) of
           None \<Rightarrow> (Return, s1)
         | Some e \<Rightarrow> if e = BrokenResourceError then (Return, s1) else (Raise e, s1))"

definition locked_send :: "env \<Rightarrow> nat \<Rightarrow> bytes \<Rightarrow> shared \<Rightarrow> result \<times> shared" where
  "locked_send env t d s =
     (case begin_write env t d s of
        (Return, s1) \<Rightarrow> end_write env s1
      | (r, s1) \<Rightarrow> (r, s1))"

text \<open>\<^verbatim>\<open>Server.protocol_send\<close>, called by task \<open>t\<close>.\<close>

definition protocol_send_task ::
  "env \<Rightarrow> nat \<Rightarrow> event \<Rightarrow> shared \<Rightarrow> result \<times> shared" where
  "protocol_send_task env t ev s =
     (case ev of
        RawData d \<Rightarrow>
          (case locked_send env t d s of
             (Return, s1) \<Rightarrow>
               (case Server_update_keep_alive_timeout env (conn s1) of
                  (r, w1) \<Rightarrow> (r, s1\<lparr>conn := w1\<rparr>))
           | (r, s1) \<Rightarrow> (r, s1))
      | Closed \<Rightarrow>
          (case Server_close env (conn s) of
             (Return, w1) \<Rightarrow>
               (case Server_update_keep_alive_timeout env w1 of
                  (r, w2) \<Rightarrow> (r, s\<lparr>conn := w2\<rparr>))
           | (r, w1) \<Rightarrow> (r, s\<lparr>conn := w1\<rparr>)))"

text \<open>
  \<^verbatim>\<open>Server.protocol_send\<close> called by the connection's own task (task 0) at a moment
  when no task holds the lock: the form in which the engine's reactions run in sequence.
\<close>

definition Server_protocol_send :: "env \<Rightarrow> event \<Rightarrow> world \<Rightarrow> result \<times> world" where
  "Server_protocol_send env ev w =
     (case protocol_send_task env 0 ev \<lparr>conn = w, lock_holder = None\<rparr> of
        (r, s) \<Rightarrow> (r, conn s))"



subsection \<open>The Protocol Engine's callbacks\<close>

text \<open>\<^verbatim>\<open>spawn_app\<close>: a mailbox, then \<^verbatim>\<open>nursery.start_soon(_handle, ...)\<close>.\<close>

definition spawn_app :: "env \<Rightarrow> world \<Rightarrow> result \<times> world" where
  "spawn_app env w =
     (case call env OpenMemoryChannel w of
        (Return, w1) \<Rightarrow> call env StartSoon w1
      | (r, w1) \<Rightarrow> (r, w1))"

text \<open>
  The engine runs inside the caller's task: each step of its reaction is executed in
  order, and an exception raised by a callback leaves the engine's call.
\<close>

fun engine_steps :: "env \<Rightarrow> engine_step list \<Rightarrow> world \<Rightarrow> result \<times> world" where
  "engine_steps env [] w = (Return, w)"
| "engine_steps env (Emit ev # ss) w =
     (case Server_protocol_send env ev (record_action (Send ev) w) of
        (Return, w1) \<Rightarrow> engine_steps env ss w1
      | (r, w1) \<Rightarrow> (r, w1))"
| "engine_steps env (Spawn # ss) w =
     (case spawn_app env w of
        (Return, w1) \<Rightarrow> engine_steps env ss w1
      | (r, w1) \<Rightarrow> (r, w1))"
| "engine_steps env (Fail e # ss) w = (Raise e, w)"

text \<open>\<^verbatim>\<open>await self.protocol.initiate()\<close> and \<^verbatim>\<open>await self.protocol.handle(event)\<close>\<close>

definition protocol_call :: "env \<Rightarrow> action \<Rightarrow> world \<Rightarrow> result \<times> world" where
  "protocol_call env a w =
     (let w1 = record_action a w in engine_steps env (reaction env (trace w1)) w1)"

subsection \<open>The read loop\<close>

text \<open>
  \<^verbatim>\<open>Server._read_data\<close>. The second argument lists the outcomes of the reads to
  come; every iteration of \<^verbatim>\<open>while True\<close> consumes one.
\<close>

fun Server_read_data :: "env \<Rightarrow> read_outcome list \<Rightarrow> world \<Rightarrow> result \<times> world" where
  "Server_read_data env [] w = (Blocked, record_action ReceiveSome w)"
| "Server_read_data env (ReadRaises e # rs) w =
     (let w1 = record_action ReceiveSome w
      in if e = TooSlowError
         then (case protocol_call env (Handle Closed) w1 of
                 (Return, w2) \<Rightarrow>
                   (case Server_close env w2 of
                      (Return, w3) \<Rightarrow> Server_read_data env rs w3
                    | (r, w3) \<Rightarrow> (r, w3))
               | (r, w2) \<Rightarrow> (r, w2))
         else if e = ClosedResourceError \<or> e = BrokenResourceError
         then (Return, w1)
         else (Raise e, w1))"
| "Server_read_data env (Data d # rs) w =
     (case protocol_call env (Handle (RawData d)) (record_action ReceiveSome w) of
        (Return, w2) \<Rightarrow>
          (case Server_update_keep_alive_timeout env w2 of
             (Return, w3) \<Rightarrow> if d = [] then (Return, w3) else Server_read_data env rs w3
           | (r, w3) \<Rightarrow> (r, w3))
      | (r, w2) \<Rightarrow> (r, w2))"

subsection \<open>Exception trees\<close>

text \<open>
  trio's \<^verbatim>\<open>_filter_impl(handler, root_exc)\<close>: the handler is applied to every leaf of
  the tree of \<^verbatim>\<open>MultiError\<close>s, a leaf it maps to \<^verbatim>\<open>None\<close> disappears, an empty
  node disappears and a node with one child is replaced by the child.
\<close>

fun filter_impl :: "(exn \<Rightarrow> exn option) \<Rightarrow> exn \<Rightarrow> exn option" where
  "filter_impl handler (MultiError es) =
     (case concat (map (\<lambda>e. case filter_impl handler e of None \<Rightarrow> [] | Some x \<Rightarrow> [x]) es) of
        [] \<Rightarrow> None
      | [x] \<Rightarrow> Some x
      | xs \<Rightarrow> Some (MultiError xs))"
| "filter_impl handler e = handler e"

text \<open>\<^verbatim>\<open>lambda exc: None if isinstance(exc, trio.Cancelled) else exc\<close>\<close>

definition unless_cancelled :: "exn \<Rightarrow> exn option" where
  "unless_cancelled exc = (if exc = Cancelled then None else Some exc)"

text \<open>
  trio declares \<^verbatim>\<open>MultiError.filter\<close> as a class method with the two parameters
  \<^verbatim>\<open>handler\<close> and \<^verbatim>\<open>root_exc\<close>. An argument that the call does not supply is
  \<open>None\<close> here, and Python raises \<^verbatim>\<open>TypeError\<close> for a call that leaves a required
  parameter without argument.
\<close>

definition MultiError_filter ::
  "(exn \<Rightarrow> exn option) option \<Rightarrow> exn option \<Rightarrow> exn + exn option" where
  "MultiError_filter handler root_exc =
     (case (handler, root_exc) of
        (Some h, Some x) \<Rightarrow> Inr (filter_impl h x)
      | _ \<Rightarrow> Inl TypeError)"

subsection \<open>The per-request task\<close>

text \<open>The two statements of both error branches of \<^verbatim>\<open>_handle\<close>.\<close>

definition log_and_send :: "env \<Rightarrow> world \<Rightarrow> result \<times> world" where
  "log_and_send env w =
     (case call env (LogException ''Error in ASGI Framework'') w of
        (Return, w1) \<Rightarrow> call env SendSentinel w1
      | (r, w1) \<Rightarrow> (r, w1))"

text \<open>
  \<^verbatim>\<open>_handle\<close>. The source calls \<^verbatim>\<open>error.filter(<lambda>)\<close>: through the instance
  the class is bound, the lambda is the handler and \<^verbatim>\<open>root_exc\<close> is not supplied.
\<close>

definition handle_app :: "env \<Rightarrow> world \<Rightarrow> result \<times> world" where
  "handle_app env w =
     (case call env InvokeAsgi w of
        (Raise error, w1) \<Rightarrow>
          if error = Cancelled then (Raise error, w1)
          else if is_MultiError error
          then (case MultiError_filter (Some unless_cancelled) None of
                  Inl e \<Rightarrow> (Raise e, w1)
                | Inr (Some errors) \<Rightarrow> log_and_send env w1
                | Inr None \<Rightarrow> (Raise error, w1))
          else if is_Exception error then log_and_send env w1
          else (Raise error, w1)
      | (r, w1) \<Rightarrow> (r, w1))"

subsection \<open>The connection loop\<close>

text \<open>
  Leaving \<^verbatim>\<open>async with trio.open_nursery()\<close>: the nursery joins its children. The
  exception of the body and those of the children are combined (one exception is
  raised as it is, several as a \<^verbatim>\<open>MultiError\<close>); any exception cancels the nursery's
  scope, which then absorbs the \<^verbatim>\<open>Cancelled\<close> leaves unless an enclosing scope is
  cancelled too. A body that never returns never leaves the block.
\<close>

definition nursery_exit :: "env \<Rightarrow> result \<Rightarrow> result" where
  "nursery_exit env body =
     (if body = Blocked then Blocked
      else (case (case body of Raise e \<Rightarrow> [e] | _ \<Rightarrow> []) @ child_errors env of
              [] \<Rightarrow> Return
            | e # es \<Rightarrow>
                (let combined = (if es = [] then e else MultiError (e # es))
                 in if outer_cancelled env then Raise combined
                    else (case filter_impl unless_cancelled combined of
                            None \<Rightarrow> Return
                          | Some x \<Rightarrow> Raise x))))"

text \<open>Lines 74 to 86 of \<^verbatim>\<open>run\<close>: the handshake and what it negotiates.\<close>

datatype negotiation = HandshakeFailed | NegotiationRaised exn | Negotiated bool string

definition not_ssl :: "env \<Rightarrow> world \<Rightarrow> negotiation \<times> world" where
  "not_ssl env w =
     (case call env StreamSocket w of
        (Raise e, w1) \<Rightarrow> (NegotiationRaised e, w1)
      | (r, w1) \<Rightarrow> (Negotiated False ''http/1.1'', w1))"

definition negotiate :: "env \<Rightarrow> world \<Rightarrow> negotiation \<times> world" where
  "negotiate env w =
     (case call env DoHandshake w of
        (Raise e, w1) \<Rightarrow>
          if e = BrokenResourceError \<or> e = TooSlowError then (HandshakeFailed, w1)
          else if e = AttributeError then not_ssl env w1
          else (NegotiationRaised e, w1)
      | (r, w1) \<Rightarrow>
          (case call env SelectedAlpnProtocol w1 of
             (Raise e, w2) \<Rightarrow>
               if e = AttributeError then not_ssl env w2 else (NegotiationRaised e, w2)
           | (r, w2) \<Rightarrow>
               (case call env TransportStreamSocket w2 of
                  (Raise e, w3) \<Rightarrow>
                    if e = AttributeError then not_ssl env w3 else (NegotiationRaised e, w3)
                | (r, w3) \<Rightarrow> (Negotiated True (alpn env), w3))))"

text \<open>Lines 92 to 106 of \<^verbatim>\<open>run\<close>: the body of the nursery block.\<close>

definition nursery_body ::
  "env \<Rightarrow> bool \<Rightarrow> string \<Rightarrow> read_outcome list \<Rightarrow> world \<Rightarrow> result \<times> world" where
  "nursery_body env ssl alpn_protocol rs w =
     (case call env (ProtocolWrapper ssl alpn_protocol) w of
        (Return, w1) \<Rightarrow>
          (case protocol_call env Initiate w1 of
             (Return, w2) \<Rightarrow>
               (case Server_update_keep_alive_timeout env w2 of
                  (Return, w3) \<Rightarrow> Server_read_data env rs w3
                | (r, w3) \<Rightarrow> (r, w3))
           | (r, w2) \<Rightarrow> (r, w2))
      | (r, w1) \<Rightarrow> (r, w1))"

text \<open>Lines 91 to 110 of \<^verbatim>\<open>run\<close>: the nursery block, its handler and its \<^verbatim>\<open>finally\<close>.\<close>

definition guarded_scope ::
  "env \<Rightarrow> bool \<Rightarrow> string \<Rightarrow> read_outcome list \<Rightarrow> world \<Rightarrow> result \<times> world" where
  "guarded_scope env ssl alpn_protocol rs w =
     (case nursery_body env ssl alpn_protocol rs w of
        (body, w1) \<Rightarrow>
          (case nursery_exit env body of
             Blocked \<Rightarrow> (Blocked, w1)
           | left \<Rightarrow>
               (case Server_close env w1 of
                  (Return, w2) \<Rightarrow>
                    (case left of
                       Raise e \<Rightarrow> if is_MultiError e then (Return, w2) else (Raise e, w2)
                     | _ \<Rightarrow> (Return, w2))
                | (r, w2) \<Rightarrow> (r, w2))))"

text \<open>\<^verbatim>\<open>Server.run\<close>\<close>

definition Server_run :: "env \<Rightarrow> read_outcome list \<Rightarrow> world \<Rightarrow> result \<times> world" where
  "Server_run env rs w =
     (case negotiate env w of
        (HandshakeFailed, w1) \<Rightarrow> (Return, w1)
      | (NegotiationRaised e, w1) \<Rightarrow> (Raise e, w1)
      | (Negotiated ssl alpn_protocol, w1) \<Rightarrow>
          (case call env ParseClientAddr w1 of
             (Return, w2) \<Rightarrow>
               (case call env ParseServerAddr w2 of
                  (Return, w3) \<Rightarrow> guarded_scope env ssl alpn_protocol rs w3
                | (r, w3) \<Rightarrow> (r, w3))
           | (r, w2) \<Rightarrow> (r, w2)))"

subsection \<open>The delayed-close task\<close>

text \<open>
  \<^verbatim>\<open>_call_later\<close> runs in a task of its own. What reaches it from outside while it is
  suspended are cancellations: of its own scope (\<^verbatim>\<open>cancel_scope.cancel()\<close>, called by
  \<^verbatim>\<open>_update_keep_alive_timeout\<close> through the handle) or of the scope of the nursery
  around it.
\<close>

datatype cancel_event = CancelScope | CancelEnclosing

record scope_state =
  cancel_called :: bool
  shield :: bool
  enclosing_cancelled :: bool

definition deliver :: "cancel_event \<Rightarrow> scope_state \<Rightarrow> scope_state" where
  "deliver ev s =
     (case ev of
        CancelScope \<Rightarrow> s\<lparr>cancel_called := True\<rparr>
      | CancelEnclosing \<Rightarrow> s\<lparr>enclosing_cancelled := True\<rparr>)"

text \<open>
  trio's rule: a checkpoint inside \<^verbatim>\<open>with cancel_scope\<close> raises \<^verbatim>\<open>Cancelled\<close> when
  the scope is cancelled, or when an enclosing scope is cancelled and this scope does
  not shield; leaving the block, the scope absorbs \<^verbatim>\<open>Cancelled\<close> when it is cancelled
  itself and no cancellation from outside is visible through it.
\<close>

definition checkpoint_raises :: "scope_state \<Rightarrow> bool" where
  "checkpoint_raises s = (cancel_called s \<or> (enclosing_cancelled s \<and> \<not> shield s))"

definition leave_scope :: "scope_state \<Rightarrow> result" where
  "leave_scope s =
     (if cancel_called s \<and> \<not> (enclosing_cancelled s \<and> \<not> shield s) then Return
      else Raise Cancelled)"

record timer_run =
  callback_invoked :: bool
  callback_completed :: bool
  task_result :: result

text \<open>
  \<^verbatim>\<open>_call_later\<close>, given the cancellations that arrive while it sleeps, those that
  arrive while the callback runs, and what the callback ends with when nothing
  interrupts it.
\<close>

definition call_later ::
  "cancel_event list \<Rightarrow> cancel_event list \<Rightarrow> exn option \<Rightarrow> timer_run" where
  "call_later during_sleep during_callback callback_result =
     (let cancel_scope = \<lparr>cancel_called = False, shield = False, enclosing_cancelled = False\<rparr>;
          s1 = fold deliver during_sleep cancel_scope
      in if checkpoint_raises s1
         then \<lparr>callback_invoked = False, callback_completed = False,
               task_result = leave_scope s1\<rparr>
         else (let s2 = fold deliver during_callback (s1\<lparr>shield := True\<rparr>)
               in if checkpoint_raises s2
                  then \<lparr>callback_invoked = True, callback_completed = False,
                        task_result = leave_scope s2\<rparr>
                  else \<lparr>callback_invoked = True, callback_completed = True,
                        task_result = (case callback_result of
                                         None \<Rightarrow> Return
                                       | Some e \<Rightarrow> Raise e)\<rparr>))"

text \<open>
  In the connection's state, the timer \<open>h\<close> whose sleep ends uncancelled fires: its
  callback is \<^verbatim>\<open>self.stream.aclose\<close>.
\<close>

definition timer_elapses :: "env \<Rightarrow> nat \<Rightarrow> world \<Rightarrow> result \<times> world" where
  "timer_elapses env h w =
     (if h < length (timers w) \<and> timers w ! h = Pending
      then call env Aclose (w\<lparr>timers := (timers w)[h := Fired]\<rparr>)
      else (Return, w))"

subsection \<open>Observations on states and traces\<close>

definition pending_timers :: "world \<Rightarrow> nat" where
  "pending_timers w = length (filter (\<lambda>s. s = Pending) (timers w))"

text \<open>Every pending timer is the one the connection holds the handle of.\<close>

definition handle_owns_pending :: "world \<Rightarrow> bool" where
  "handle_owns_pending w =
     (\<forall>i < length (timers w).
        timers w ! i = Pending \<longrightarrow> keep_alive_timeout_handle w = Some i)"

text \<open>The history at which a rearm started in \<open>w\<close> reads \<^verbatim>\<open>self.protocol.idle\<close>.\<close>

definition rearm_history :: "world \<Rightarrow> action list" where
  "rearm_history w =
     trace w @ (case keep_alive_timeout_handle w of Some h \<Rightarrow> [Cancel h] | None \<Rightarrow> [])"


text \<open>The part of the trace that a procedure started in \<open>w\<close> has added in \<open>w'\<close>.\<close>

definition added :: "world \<Rightarrow> world \<Rightarrow> action list" where
  "added w w' = drop (length (trace w)) (trace w')"

text \<open>The events delivered to \<^verbatim>\<open>Protocol.handle\<close>, in order.\<close>

fun handled :: "action list \<Rightarrow> event list" where
  "handled [] = []"
| "handled (Handle ev # tr) = ev # handled tr"
| "handled (a # tr) = handled tr"

text \<open>
  No read and no write on the transport after a \<^verbatim>\<open>Closed\<close> event was fed to the
  engine or emitted by it.
\<close>

fun transport_io :: "action \<Rightarrow> bool" where
  "transport_io ReceiveSome = True"
| "transport_io (SendAll d) = True"
| "transport_io a = False"

fun no_io_after_closed :: "action list \<Rightarrow> bool" where
  "no_io_after_closed [] = True"
| "no_io_after_closed (a # tr) =
     (if a = Handle Closed \<or> a = Send Closed then \<not> list_ex transport_io tr
      else no_io_after_closed tr)"

text \<open>Teardown is \<^verbatim>\<open>_close\<close>, the only procedure that calls \<^verbatim>\<open>send_eof\<close>.\<close>

definition teardowns :: "action list \<Rightarrow> nat" where
  "teardowns tr = count_list tr SendEof"

text \<open>
  The actions of the writer, of the timer and of the spawn callback: what a call of the
  engine can make the connection do. The actions of the setup of \<^verbatim>\<open>run\<close>.
\<close>

fun callback_action :: "action \<Rightarrow> bool" where
  "callback_action (Send ev) = True"
| "callback_action StartSoon = True"
| "callback_action OpenMemoryChannel = True"
| "callback_action LockAcquire = True"
| "callback_action (SendAll d) = True"
| "callback_action LockRelease = True"
| "callback_action SendEof = True"
| "callback_action Aclose = True"
| "callback_action (Cancel h) = True"
| "callback_action NurseryStart = True"
| "callback_action a = False"

fun setup_action :: "action \<Rightarrow> bool" where
  "setup_action DoHandshake = True"
| "setup_action SelectedAlpnProtocol = True"
| "setup_action TransportStreamSocket = True"
| "setup_action StreamSocket = True"
| "setup_action ParseClientAddr = True"
| "setup_action ParseServerAddr = True"
| "setup_action a = False"

text \<open>How often \<^verbatim>\<open>Closed\<close> was fed to the engine or emitted by it.\<close>

definition closings :: "action list \<Rightarrow> nat" where
  "closings tr = count_list tr (Handle Closed) + count_list tr (Send Closed)"

subsection \<open>Concrete environments\<close>

text \<open>Every call succeeds, the engine does nothing and is never idle, no child fails.\<close>

definition quiet_env :: env where
  "quiet_env =
     \<lparr>outcome = (\<lambda>tr. None), alpn = ''h2'', reaction = (\<lambda>tr. []), idle = (\<lambda>tr. False),
      child_errors = [], outer_cancelled = False\<rparr>"


text \<open>The engine answers the first request by closing the connection.\<close>

definition closing_engine_env :: env where
  "closing_engine_env =
     quiet_env\<lparr>reaction := (\<lambda>tr. if last tr = Handle (RawData ''x'') then [Emit Closed]
                                else [])\<rparr>"

text \<open>The transport was closed before: the half-close is refused.\<close>

definition closed_transport_env :: env where
  "closed_transport_env =
     quiet_env\<lparr>outcome := (\<lambda>tr. if last tr = SendEof then Some ClosedResourceError
                               else None)\<rparr>"

text \<open>The peer is gone: the half-close and the full close both fail.\<close>

definition failing_close_env :: env where
  "failing_close_env =
     quiet_env\<lparr>outcome := (\<lambda>tr. if last tr = SendEof \<or> last tr = Aclose
                               then Some BrokenResourceError else None)\<rparr>"

text \<open>An enclosing scope is cancelled: every checkpoint raises \<^verbatim>\<open>Cancelled\<close>.\<close>

definition cancelled_env :: env where
  "cancelled_env = quiet_env\<lparr>outcome := (\<lambda>tr. Some Cancelled)\<rparr>"


text \<open>The engine is always idle.\<close>

definition idle_env :: env where
  "idle_env = quiet_env\<lparr>idle := (\<lambda>tr. True)\<rparr>"


text \<open>The application of a request fails.\<close>

definition app_env :: "exn \<Rightarrow> env" where
  "app_env e = quiet_env\<lparr>outcome := (\<lambda>tr. if last tr = InvokeAsgi then Some e else None)\<rparr>"

text \<open>The TLS handshake exceeds its deadline.\<close>

definition handshake_timeout_env :: env where
  "handshake_timeout_env =
     quiet_env\<lparr>outcome := (\<lambda>tr. if last tr = DoHandshake then Some TooSlowError else None)\<rparr>"

text \<open>The transport has no security layer: it has no \<^verbatim>\<open>do_handshake\<close>.\<close>

definition plain_transport_env :: env where
  "plain_transport_env =
     quiet_env\<lparr>outcome := (\<lambda>tr. if last tr = DoHandshake then Some AttributeError else None)\<rparr>"


section \<open>Properties\<close>

subsection \<open>Calls and traces\<close>

lemma call_eq:
  "call env a w = (case outcome env (trace w @ [a]) of None \<Rightarrow> Return | Some e \<Rightarrow> Raise e,
                   record_action a w)"
  by (simp add: call_def Let_def record_action_def)

lemma trace_record_action: "trace (record_action a w) = trace w @ [a]"
  by (simp add: record_action_def)

lemma trace_cancel_timer: "trace (cancel_timer h w) = trace w"
  by (simp add: cancel_timer_def)

lemma update_unfold:
  "Server_update_keep_alive_timeout env w =
     (let w1 = (case keep_alive_timeout_handle w of
                  Some h \<Rightarrow> cancel_timer h (record_action (Cancel h) w)
                | None \<Rightarrow> w);
          w2 = w1\<lparr>keep_alive_timeout_handle := None\<rparr>
      in if idle env (trace w2)
         then (case call env NurseryStart w2 of
                 (Return, w3) \<Rightarrow>
                   (Return, w3\<lparr>keep_alive_timeout_handle := Some (length (timers w3)),
                               timers := timers w3 @ [Pending]\<rparr>)
               | (r, w3) \<Rightarrow> (r, w3))
         else (Return, w2))"
  by (simp add: Server_update_keep_alive_timeout_def rearm_begin_def rearm_store_def Let_def
      call_def record_action_def split: option.splits)

lemma protocol_send_RawData:
  "Server_protocol_send env (RawData d) w =
     (case outcome env (trace w @ [LockAcquire]) of
        Some e \<Rightarrow> (Raise e, record_action LockAcquire w)
      | None \<Rightarrow>
          (let w3 = record_action LockRelease
                      (record_action (SendAll d) (record_action LockAcquire w))
           in case outcome env (trace w @ [LockAcquire, SendAll d]) of
                None \<Rightarrow> Server_update_keep_alive_timeout env w3
              | Some e \<Rightarrow>
                  if e = BrokenResourceError then Server_update_keep_alive_timeout env w3
                  else (Raise e, w3)))"
  by (simp add: Server_protocol_send_def protocol_send_task_def locked_send_def begin_write_def
      end_write_def lock_acquire_def call_eq trace_record_action Let_def
      split: option.splits prod.splits)

lemma protocol_send_Closed:
  "Server_protocol_send env Closed w =
     (case Server_close env w of
        (Return, w1) \<Rightarrow> Server_update_keep_alive_timeout env w1
      | (r, w1) \<Rightarrow> (r, w1))"
  by (simp add: Server_protocol_send_def protocol_send_task_def
      split: prod.splits result.splits)

lemma update_trace:
  "trace (snd (Server_update_keep_alive_timeout env w)) =
     trace w @ (case keep_alive_timeout_handle w of Some h \<Rightarrow> [Cancel h] | None \<Rightarrow> [])
       @ (if idle env (trace w @ (case keep_alive_timeout_handle w of Some h \<Rightarrow> [Cancel h] | None \<Rightarrow> []))
          then [NurseryStart] else [])"
  by (simp add: update_unfold Let_def call_eq
      trace_record_action trace_cancel_timer split: option.splits)

lemma rearm_added:
  "added w (snd (Server_update_keep_alive_timeout env w)) =
     (case keep_alive_timeout_handle w of Some h \<Rightarrow> [Cancel h] | None \<Rightarrow> [])
       @ (if idle env (rearm_history w) then [NurseryStart] else [])"
  by (simp add: update_unfold Let_def added_def call_eq rearm_history_def
      trace_record_action trace_cancel_timer split: option.splits)

lemma close_trace:
  "\<exists>xs. trace (snd (Server_close env w)) = trace w @ SendEof # xs \<and> (xs = [] \<or> xs = [Aclose])"
  by (auto simp add: Server_close_def call_eq trace_record_action split: option.splits)

subsection \<open>Teardown\<close>


text \<open>
  Claim C10, as stated, fails: \<^verbatim>\<open>await self.stream.aclose()\<close> stands after the
  \<^verbatim>\<open>try\<close> statement, so what the full close raises leaves \<^verbatim>\<open>_close\<close>. With a
  peer that is gone, the half-close error is passed over and the error of the full
  close is raised.
\<close>

theorem aclose_error_counterexample:
  "fst (Server_close failing_close_env new_connection) = Raise BrokenResourceError"
  by (simp add: Server_close_def call_eq record_action_def failing_close_env_def quiet_env_def
      new_connection_def)

text \<open>
  Claim C10, amended. A half-close that succeeds or raises one of
  \<^verbatim>\<open>BrokenResourceError\<close>, \<^verbatim>\<open>AttributeError\<close>, \<^verbatim>\<open>BusyResourceError\<close>,
  \<^verbatim>\<open>ClosedResourceError\<close> is always followed by the full close, and \<^verbatim>\<open>_close\<close> ends
  as the full close does: it returns when \<^verbatim>\<open>aclose\<close> returns and raises what
  \<^verbatim>\<open>aclose\<close> raises. Any other exception of the half-close leaves \<^verbatim>\<open>_close\<close> at
  once, the full close not being called. On a transport whose half-close fails only in
  these four ways and whose full close never fails, \<^verbatim>\<open>_close\<close> returns, and it
  returns again when it is called a second time.
\<close>

theorem close_contract:
  "(outcome env (trace w @ [SendEof])
      \<in> {None, Some BrokenResourceError, Some AttributeError, Some BusyResourceError,
         Some ClosedResourceError}
      \<longrightarrow> Server_close env w
            = (case outcome env (trace w @ [SendEof, Aclose]) of
                 None \<Rightarrow> Return | Some x \<Rightarrow> Raise x,
               w\<lparr>trace := trace w @ [SendEof, Aclose]\<rparr>))
   \<and> (\<forall>e. outcome env (trace w @ [SendEof]) = Some e
          \<and> e \<notin> {BrokenResourceError, AttributeError, BusyResourceError, ClosedResourceError}
          \<longrightarrow> Server_close env w = (Raise e, w\<lparr>trace := trace w @ [SendEof]\<rparr>))
   \<and> ((\<forall>tr. outcome env (tr @ [SendEof])
               \<in> {None, Some BrokenResourceError, Some AttributeError, Some BusyResourceError,
                  Some ClosedResourceError})
        \<and> (\<forall>tr. outcome env (tr @ [Aclose]) = None)
        \<longrightarrow> Server_close env w = (Return, w\<lparr>trace := trace w @ [SendEof, Aclose]\<rparr>)
          \<and> Server_close env (snd (Server_close env w))
              = (Return, w\<lparr>trace := trace w @ [SendEof, Aclose, SendEof, Aclose]\<rparr>))"
proof (intro conjI allI impI)
  assume "outcome env (trace w @ [SendEof])
      \<in> {None, Some BrokenResourceError, Some AttributeError, Some BusyResourceError,
         Some ClosedResourceError}"
  then show "Server_close env w
            = (case outcome env (trace w @ [SendEof, Aclose]) of
                 None \<Rightarrow> Return | Some x \<Rightarrow> Raise x,
               w\<lparr>trace := trace w @ [SendEof, Aclose]\<rparr>)"
    by (auto simp add: Server_close_def call_eq record_action_def)
next
  fix e
  assume "outcome env (trace w @ [SendEof]) = Some e
          \<and> e \<notin> {BrokenResourceError, AttributeError, BusyResourceError, ClosedResourceError}"
  then show "Server_close env w = (Raise e, w\<lparr>trace := trace w @ [SendEof]\<rparr>)"
    by (cases e) (simp_all add: Server_close_def call_eq record_action_def)
next
  assume a: "(\<forall>tr. outcome env (tr @ [SendEof])
               \<in> {None, Some BrokenResourceError, Some AttributeError, Some BusyResourceError,
                  Some ClosedResourceError})
        \<and> (\<forall>tr. outcome env (tr @ [Aclose]) = None)"
  have one: "Server_close env v = (Return, v\<lparr>trace := trace v @ [SendEof, Aclose]\<rparr>)" for v
  proof -
    have "outcome env (trace v @ [SendEof])
      \<in> {None, Some BrokenResourceError, Some AttributeError, Some BusyResourceError,
         Some ClosedResourceError}"
      using a by blast
    moreover have "outcome env ((trace v @ [SendEof]) @ [Aclose]) = None"
      using a by blast
    ultimately show ?thesis
      by (auto simp add: Server_close_def call_eq record_action_def)
  qed
  show "Server_close env w = (Return, w\<lparr>trace := trace w @ [SendEof, Aclose]\<rparr>)"
    by (rule one)
  show "Server_close env (snd (Server_close env w))
              = (Return, w\<lparr>trace := trace w @ [SendEof, Aclose, SendEof, Aclose]\<rparr>)"
    by (simp add: one)
qed

theorem close_contract_witness:
  "Server_close closed_transport_env new_connection
     = (Return, new_connection\<lparr>trace := trace new_connection @ [SendEof, Aclose]\<rparr>)
   \<and> Server_close closed_transport_env (snd (Server_close closed_transport_env new_connection))
     = (Return, new_connection\<lparr>trace := trace new_connection
                                   @ [SendEof, Aclose, SendEof, Aclose]\<rparr>)
   \<and> Server_close failing_close_env new_connection
     = (Raise BrokenResourceError,
        new_connection\<lparr>trace := trace new_connection @ [SendEof, Aclose]\<rparr>)
   \<and> Server_close cancelled_env new_connection
     = (Raise Cancelled, new_connection\<lparr>trace := trace new_connection @ [SendEof]\<rparr>)"
proof -
  have closed: "(\<forall>tr. outcome closed_transport_env (tr @ [SendEof])
               \<in> {None, Some BrokenResourceError, Some AttributeError, Some BusyResourceError,
                  Some ClosedResourceError})
        \<and> (\<forall>tr. outcome closed_transport_env (tr @ [Aclose]) = None)"
    by (simp add: closed_transport_env_def quiet_env_def)
  have gone: "outcome failing_close_env (trace new_connection @ [SendEof])
      \<in> {None, Some BrokenResourceError, Some AttributeError, Some BusyResourceError,
         Some ClosedResourceError}"
    "outcome failing_close_env (trace new_connection @ [SendEof, Aclose])
       = Some BrokenResourceError"
    by (simp_all add: failing_close_env_def quiet_env_def)
  have cancelled: "outcome cancelled_env (trace new_connection @ [SendEof]) = Some Cancelled
     \<and> Cancelled \<notin> {BrokenResourceError, AttributeError, BusyResourceError,
                       ClosedResourceError}"
    by (simp add: cancelled_env_def quiet_env_def)
  have 1: "Server_close closed_transport_env new_connection
     = (Return, new_connection\<lparr>trace := trace new_connection @ [SendEof, Aclose]\<rparr>)"
    "Server_close closed_transport_env (snd (Server_close closed_transport_env new_connection))
     = (Return, new_connection\<lparr>trace := trace new_connection
                                   @ [SendEof, Aclose, SendEof, Aclose]\<rparr>)"
    using close_contract [of closed_transport_env new_connection] closed by blast+
  have 2: "Server_close failing_close_env new_connection
     = (Raise BrokenResourceError,
        new_connection\<lparr>trace := trace new_connection @ [SendEof, Aclose]\<rparr>)"
    using close_contract [of failing_close_env new_connection] gone by auto
  have 3: "Server_close cancelled_env new_connection
     = (Raise Cancelled, new_connection\<lparr>trace := trace new_connection @ [SendEof]\<rparr>)"
    using close_contract [of cancelled_env new_connection] cancelled by blast
  show ?thesis using 1 2 3 by blast
qed

subsection \<open>The outbound writer\<close>








subsection \<open>The per-request task\<close>

lemma MultiError_filter_call: "MultiError_filter (Some h) None = Inl TypeError"
  by (simp add: MultiError_filter_def)

lemma handle_app_MultiError:
  "outcome env (trace w @ [InvokeAsgi]) = Some (MultiError es) \<Longrightarrow>
   handle_app env w = (Raise TypeError, record_action InvokeAsgi w)"
  by (simp add: handle_app_def call_eq MultiError_filter_def)

lemma handle_app_Cancelled:
  "outcome env (trace w @ [InvokeAsgi]) = Some Cancelled \<Longrightarrow>
   handle_app env w = (Raise Cancelled, record_action InvokeAsgi w)"
  by (simp add: handle_app_def call_eq)

lemma handle_app_Exception:
  "outcome env (trace w @ [InvokeAsgi]) = Some e \<Longrightarrow> is_Exception e \<Longrightarrow>
   outcome env (trace w @ [InvokeAsgi, LogException ''Error in ASGI Framework'']) = None \<Longrightarrow>
   outcome env (trace w @ [InvokeAsgi, LogException ''Error in ASGI Framework'', SendSentinel]) = None \<Longrightarrow>
   handle_app env w = (Return, w\<lparr>trace := trace w @ [InvokeAsgi, LogException ''Error in ASGI Framework'', SendSentinel]\<rparr>)"
  by (cases e) (simp_all add: handle_app_def call_eq log_and_send_def record_action_def)

text \<open>
  Claim C8. The application of a request ends with a \<^verbatim>\<open>MultiError\<close> of two
  cancellations. The claim has \<^verbatim>\<open>_handle\<close> re-raise it; the call of
  \<^verbatim>\<open>error.filter\<close> raises \<^verbatim>\<open>TypeError\<close> instead, which is what the task ends with.
\<close>

theorem handle_app_MultiError_of_cancellations:
  "handle_app (app_env (MultiError [Cancelled, Cancelled])) new_connection
     = (Raise TypeError, \<lparr>trace = [InvokeAsgi], keep_alive_timeout_handle = None, timers = []\<rparr>)"
  by (simp add: handle_app_def app_env_def quiet_env_def new_connection_def call_eq
      record_action_def MultiError_filter_def)

subsection \<open>The delayed-close task\<close>

lemma fold_deliver_cancel_called:
  "cancel_called (fold deliver evs s) = (cancel_called s \<or> CancelScope \<in> set evs)"
  by (induction evs arbitrary: s) (auto simp add: deliver_def split: cancel_event.splits)

lemma fold_deliver_shield:
  "shield (fold deliver evs s) = shield s"
  by (induction evs arbitrary: s) (auto simp add: deliver_def split: cancel_event.splits)

lemma fold_deliver_enclosing:
  "enclosing_cancelled (fold deliver evs s) = (enclosing_cancelled s \<or> CancelEnclosing \<in> set evs)"
  by (induction evs arbitrary: s) (auto simp add: deliver_def split: cancel_event.splits)

text \<open>
  Claim C6. When the scope of the delayed-close task is cancelled while the task
  sleeps, the callback is never invoked. When the sleep ends with no cancellation, the
  callback is invoked under the shield, and it runs to completion whenever the task's
  own scope is not cancelled meanwhile, whether or not the enclosing scope is.
\<close>

theorem call_later_cancel_and_shield:
  "(CancelScope \<in> set during_sleep \<longrightarrow>
      \<not> callback_invoked (call_later during_sleep during_callback callback_result))
   \<and> (during_sleep = [] \<longrightarrow>
        callback_invoked (call_later during_sleep during_callback callback_result)
        \<and> (CancelScope \<notin> set during_callback \<longrightarrow>
             callback_completed (call_later during_sleep during_callback callback_result)))"
  by (simp add: call_later_def Let_def checkpoint_raises_def fold_deliver_cancel_called
      fold_deliver_shield fold_deliver_enclosing)

theorem call_later_cancel_and_shield_witness:
  "\<not> callback_invoked (call_later [CancelScope] [] None)
   \<and> callback_completed (call_later [] [CancelEnclosing, CancelEnclosing] None)"
  using call_later_cancel_and_shield [of "[CancelScope]" "[]" None]
    call_later_cancel_and_shield [of "[]" "[CancelEnclosing, CancelEnclosing]" None]
  by simp

subsection \<open>The idle timer\<close>

lemma pending_timers_0: "pending_timers w = 0 \<longleftrightarrow> Pending \<notin> set (timers w)"
  by (auto simp add: pending_timers_def filter_empty_conv)

lemma cancel_timer_Fired: "timers w ! h = Fired \<Longrightarrow> cancel_timer h w = w"
  by (simp add: cancel_timer_def)

lemma cancel_handle_no_pending:
  assumes "handle_owns_pending w" and "keep_alive_timeout_handle w = Some h"
    and that: "timers v = timers w"
  shows "Pending \<notin> set (timers (cancel_timer h v))"
proof
  assume "Pending \<in> set (timers (cancel_timer h v))"
  then obtain i where i: "i < length (timers (cancel_timer h v))" "timers (cancel_timer h v) ! i = Pending"
    by (auto simp add: in_set_conv_nth)
  have len: "length (timers (cancel_timer h v)) = length (timers w)"
    using that by (simp add: cancel_timer_def)
  show False
  proof (cases "i = h")
    case True
    then show ?thesis using i that by (auto simp add: cancel_timer_def split: if_splits)
  next
    case False
    then have "timers w ! i = Pending"
      using i that by (auto simp add: cancel_timer_def split: if_splits)
    then show ?thesis using assms i len False by (auto simp add: handle_owns_pending_def)
  qed
qed

lemma none_handle_no_pending:
  "handle_owns_pending w \<Longrightarrow> keep_alive_timeout_handle w = None \<Longrightarrow> Pending \<notin> set (timers w)"
  by (auto simp add: handle_owns_pending_def in_set_conv_nth)

text \<open>What a rearm leaves: no timer when the engine is busy or the start fails, one otherwise.\<close>

lemma rearm_state:
  assumes "handle_owns_pending w"
  shows "\<exists>ts. Pending \<notin> set ts \<and> length ts = length (timers w) \<and>
     (if idle env (rearm_history w) \<and> outcome env (rearm_history w @ [NurseryStart]) = None
      then timers (snd (Server_update_keep_alive_timeout env w)) = ts @ [Pending]
         \<and> keep_alive_timeout_handle (snd (Server_update_keep_alive_timeout env w)) = Some (length ts)
      else timers (snd (Server_update_keep_alive_timeout env w)) = ts
         \<and> keep_alive_timeout_handle (snd (Server_update_keep_alive_timeout env w)) = None)"
proof (cases "keep_alive_timeout_handle w")
  case None
  then have "Pending \<notin> set (timers w)" using assms none_handle_no_pending by blast
  then show ?thesis using None
    by (intro exI [of _ "timers w"])
      (auto simp add: update_unfold rearm_history_def call_eq
        record_action_def Let_def split: option.splits)
next
  case (Some h)
  let ?v = "cancel_timer h (record_action (Cancel h) w)"
  have "Pending \<notin> set (timers ?v)"
    using cancel_handle_no_pending [OF assms Some, of "record_action (Cancel h) w"]
    by (simp add: record_action_def)
  moreover have "length (timers ?v) = length (timers w)"
    by (simp add: cancel_timer_def record_action_def)
  ultimately show ?thesis using Some
    by (intro exI [of _ "timers ?v"])
      (simp add: update_unfold rearm_history_def call_eq
        trace_record_action trace_cancel_timer Let_def split: option.splits,
       simp add: record_action_def)
qed

lemma rearm_invariant:
  assumes "handle_owns_pending w"
  shows "handle_owns_pending (snd (Server_update_keep_alive_timeout env w))"
    and "pending_timers (snd (Server_update_keep_alive_timeout env w)) \<le> 1"
    and "idle env (rearm_history w) \<Longrightarrow> outcome env (rearm_history w @ [NurseryStart]) = None \<Longrightarrow>
         pending_timers (snd (Server_update_keep_alive_timeout env w)) = 1"
    and "\<not> idle env (rearm_history w) \<Longrightarrow>
         pending_timers (snd (Server_update_keep_alive_timeout env w)) = 0"
proof -
  obtain ts where ts: "Pending \<notin> set ts" 
     "if idle env (rearm_history w) \<and> outcome env (rearm_history w @ [NurseryStart]) = None
      then timers (snd (Server_update_keep_alive_timeout env w)) = ts @ [Pending]
         \<and> keep_alive_timeout_handle (snd (Server_update_keep_alive_timeout env w)) = Some (length ts)
      else timers (snd (Server_update_keep_alive_timeout env w)) = ts
         \<and> keep_alive_timeout_handle (snd (Server_update_keep_alive_timeout env w)) = None"
    using rearm_state [OF assms, of env] by blast
  have nf: "filter (\<lambda>s. s = Pending) ts = []"
    using ts(1) by (auto simp add: filter_empty_conv)
  show "handle_owns_pending (snd (Server_update_keep_alive_timeout env w))"
    using ts by (auto simp add: handle_owns_pending_def nth_append in_set_conv_nth split: if_splits)
  show "pending_timers (snd (Server_update_keep_alive_timeout env w)) \<le> 1"
    using ts(2) nf by (auto simp add: pending_timers_def split: if_splits)
  show "idle env (rearm_history w) \<Longrightarrow> outcome env (rearm_history w @ [NurseryStart]) = None \<Longrightarrow>
         pending_timers (snd (Server_update_keep_alive_timeout env w)) = 1"
    using ts(2) nf by (auto simp add: pending_timers_def split: if_splits)
  show "\<not> idle env (rearm_history w) \<Longrightarrow>
         pending_timers (snd (Server_update_keep_alive_timeout env w)) = 0"
    using ts(2) nf by (auto simp add: pending_timers_def split: if_splits)
qed

lemma elapse_invariant:
  "handle_owns_pending w \<Longrightarrow> handle_owns_pending (snd (timer_elapses env h w))"
  by (auto simp add: timer_elapses_def call_eq record_action_def handle_owns_pending_def
      nth_list_update)

lemma new_connection_invariant: "handle_owns_pending new_connection"
  by (simp add: handle_owns_pending_def new_connection_def)

text \<open>A rearm of one task, begun and resumed with nothing in between, is the rearm above.\<close>

lemma rearm_alone:
  "rearm_schedule env [Begin t, Store t] nothing_started w
     = snd (Server_update_keep_alive_timeout env w)"
  by (simp add: Server_update_keep_alive_timeout_def nothing_started_def
      split: prod.splits option.splits)

text \<open>
  Claim C5: the code does not keep what the claim asks for. The read loop (line 134)
  and a task of the application (through \<^verbatim>\<open>protocol_send\<close>, line 121) both rearm
  the timer of a new connection while the engine is idle, and the second begins during
  the \<^verbatim>\<open>await self.nursery.start(...)\<close> of the first. Each finds no handle to
  cancel and starts a timer; each then stores its handle, the second over the first.
  Two timers are pending, and the connection holds the handle of one of them only: a
  later rearm cancels that one, starts another, and still leaves two.
\<close>

theorem overlapping_rearms_leave_two_timers:
  "rearm_schedule idle_env [Begin 0, Begin 1, Store 0, Store 1] nothing_started new_connection
     = \<lparr>trace = [NurseryStart, NurseryStart], keep_alive_timeout_handle = Some 1,
        timers = [Pending, Pending]\<rparr>
   \<and> pending_timers
       (rearm_schedule idle_env [Begin 0, Begin 1, Store 0, Store 1] nothing_started
          new_connection) = 2
   \<and> snd (Server_update_keep_alive_timeout idle_env
        (rearm_schedule idle_env [Begin 0, Begin 1, Store 0, Store 1] nothing_started
           new_connection))
     = \<lparr>trace = [NurseryStart, NurseryStart, Cancel 1, NurseryStart],
        keep_alive_timeout_handle = Some 2, timers = [Pending, CancelledTimer, Pending]\<rparr>
   \<and> pending_timers
       (snd (Server_update_keep_alive_timeout idle_env
          (rearm_schedule idle_env [Begin 0, Begin 1, Store 0, Store 1] nothing_started
             new_connection))) = 2"
  by (simp add: rearm_begin_def rearm_store_def update_unfold cancel_timer_def
      nothing_started_def call_eq record_action_def idle_env_def quiet_env_def
      new_connection_def pending_timers_def Let_def)

subsection \<open>What the callbacks add to the trace\<close>

lemma callback_actions_handled: "list_all callback_action xs \<Longrightarrow> handled xs = []"
  by (induction xs rule: handled.induct) auto

lemma callback_actions_count:
  "list_all callback_action xs \<Longrightarrow> \<not> callback_action a \<Longrightarrow> count_list xs a = 0"
  by (induction xs) auto

lemma handled_append: "handled (xs @ ys) = handled xs @ handled ys"
  by (induction xs rule: handled.induct) auto

lemma update_delta:
  "\<exists>xs. trace (snd (Server_update_keep_alive_timeout env w)) = trace w @ xs
     \<and> list_all callback_action xs \<and> teardowns xs = 0 \<and> count_list xs (Send Closed) = 0"
  by (simp add: update_trace teardowns_def split: option.splits)

lemma close_delta:
  "\<exists>xs. trace (snd (Server_close env w)) = trace w @ xs
     \<and> list_all callback_action xs \<and> teardowns xs = 1 \<and> count_list xs (Send Closed) = 0
     \<and> (xs = [SendEof] \<or> xs = [SendEof, Aclose])"
  using close_trace [of env w] by (auto simp add: teardowns_def)

lemma send_delta:
  "\<exists>xs. trace (snd (Server_protocol_send env ev w)) = trace w @ xs \<and> list_all callback_action xs
     \<and> teardowns xs \<le> (if ev = Closed then 1 else 0) \<and> count_list xs (Send Closed) = 0"
proof (cases ev)
  case (RawData d)
  let ?w1 = "record_action LockAcquire w"
  let ?w3 = "record_action LockRelease (record_action (SendAll d) (record_action LockAcquire w))"
  have t3: "trace ?w3 = trace w @ [LockAcquire, SendAll d, LockRelease]"
    "trace ?w1 = trace w @ [LockAcquire]"
    by (simp_all add: trace_record_action)
  have "(\<exists>e. Server_protocol_send env ev w = (Raise e, ?w1))
      \<or> (\<exists>e. Server_protocol_send env ev w = (Raise e, ?w3))
      \<or> Server_protocol_send env ev w = Server_update_keep_alive_timeout env ?w3"
    using RawData
    by (cases "outcome env (trace w @ [LockAcquire])";
        cases "outcome env (trace w @ [LockAcquire, SendAll d])")
      (simp_all add: protocol_send_RawData Let_def)
  then consider e where "Server_protocol_send env ev w = (Raise e, ?w1)"
    | e where "Server_protocol_send env ev w = (Raise e, ?w3)"
    | "Server_protocol_send env ev w = Server_update_keep_alive_timeout env ?w3"
    by blast
  then show ?thesis
  proof cases
    case 1
    then show ?thesis using t3 RawData by (simp add: teardowns_def)
  next
    case 2
    then show ?thesis using t3 RawData by (simp add: teardowns_def)
  next
    case 3
    obtain xs where "trace (snd (Server_update_keep_alive_timeout env ?w3)) = trace ?w3 @ xs"
      "list_all callback_action xs" "teardowns xs = 0" "count_list xs (Send Closed) = 0"
      using update_delta [of env ?w3] by blast
    then show ?thesis using 3 t3 RawData by (simp add: teardowns_def)
  qed
next
  case Closed
  obtain r w1 where c: "Server_close env w = (r, w1)" by (cases "Server_close env w")
  obtain xs where xs: "trace w1 = trace w @ xs" "list_all callback_action xs" "teardowns xs = 1"
    "count_list xs (Send Closed) = 0"
    using close_delta [of env w] c by auto
  show ?thesis
  proof (cases "r = Return")
    case True
    then have ps: "Server_protocol_send env ev w = Server_update_keep_alive_timeout env w1"
      using Closed c by (simp add: protocol_send_Closed)
    obtain ys where "trace (snd (Server_update_keep_alive_timeout env w1)) = trace w1 @ ys"
      "list_all callback_action ys" "teardowns ys = 0" "count_list ys (Send Closed) = 0"
      using update_delta [of env w1] by blast
    then show ?thesis using ps xs Closed
      by (intro exI [of _ "xs @ ys"]) (simp add: teardowns_def)
  next
    case False
    then have "Server_protocol_send env ev w = (r, w1)"
      using Closed c by (cases r) (simp_all add: protocol_send_Closed)
    then show ?thesis using xs Closed by auto
  qed
qed

lemma spawn_delta:
  "\<exists>xs. trace (snd (spawn_app env w)) = trace w @ xs \<and> list_all callback_action xs
     \<and> teardowns xs = 0 \<and> count_list xs (Send Closed) = 0"
  by (auto simp add: spawn_app_def call_eq trace_record_action teardowns_def split: option.splits)

lemma engine_steps_delta:
  "\<exists>xs. trace (snd (engine_steps env ss w)) = trace w @ xs \<and> list_all callback_action xs
     \<and> teardowns xs \<le> count_list xs (Send Closed)"
proof (induction env ss w rule: engine_steps.induct)
  case (1 env w)
  then show ?case by (simp add: teardowns_def)
next
  case (2 env ev ss w)
  let ?w0 = "record_action (Send ev) w"
  obtain r w1 where s: "Server_protocol_send env ev ?w0 = (r, w1)"
    by (cases "Server_protocol_send env ev ?w0")
  obtain xs where xs: "trace w1 = trace ?w0 @ xs" "list_all callback_action xs"
    "teardowns xs \<le> (if ev = Closed then 1 else 0)" "count_list xs (Send Closed) = 0"
    using send_delta [of env ev ?w0] s by auto
  have pre: "trace w1 = trace w @ Send ev # xs" "list_all callback_action (Send ev # xs)"
    "teardowns (Send ev # xs) \<le> count_list (Send ev # xs) (Send Closed)"
    using xs by (auto simp add: trace_record_action teardowns_def)
  show ?case
  proof (cases "r = Return")
    case True
    then obtain ys where ys: "trace (snd (engine_steps env ss w1)) = trace w1 @ ys"
      "list_all callback_action ys" "teardowns ys \<le> count_list ys (Send Closed)"
      using 2 s by auto
    have "engine_steps env (Emit ev # ss) w = engine_steps env ss w1"
      using s True by simp
    then show ?thesis using pre ys
      by (intro exI [of _ "Send ev # xs @ ys"]) (auto simp add: teardowns_def)
  next
    case False
    then have "engine_steps env (Emit ev # ss) w = (r, w1)"
      using s by (cases r) simp_all
    then show ?thesis using pre by auto
  qed
next
  case (3 env ss w)
  obtain r w1 where s: "spawn_app env w = (r, w1)" by (cases "spawn_app env w")
  obtain xs where xs: "trace w1 = trace w @ xs" "list_all callback_action xs"
    "teardowns xs = 0" "count_list xs (Send Closed) = 0"
    using spawn_delta [of env w] s by auto
  show ?case
  proof (cases "r = Return")
    case True
    then obtain ys where ys: "trace (snd (engine_steps env ss w1)) = trace w1 @ ys"
      "list_all callback_action ys" "teardowns ys \<le> count_list ys (Send Closed)"
      using 3 s by auto
    have "engine_steps env (Spawn # ss) w = engine_steps env ss w1"
      using s True by simp
    then show ?thesis using xs ys
      by (intro exI [of _ "xs @ ys"]) (auto simp add: teardowns_def)
  next
    case False
    then have "engine_steps env (Spawn # ss) w = (r, w1)"
      using s by (cases r) simp_all
    then show ?thesis using xs by auto
  qed
next
  case (4 env e ss w)
  then show ?case by (simp add: teardowns_def)
qed

lemma protocol_call_delta:
  "\<exists>xs. trace (snd (protocol_call env a w)) = trace w @ a # xs \<and> list_all callback_action xs
     \<and> teardowns xs \<le> count_list xs (Send Closed)"
  using engine_steps_delta [of env "reaction env (trace (record_action a w))" "record_action a w"]
  by (auto simp add: protocol_call_def Let_def trace_record_action)

lemma call_not_Blocked: "fst (call env a w) \<noteq> Blocked"
  by (simp add: call_eq split: option.splits)

lemma close_not_Blocked: "fst (Server_close env w) \<noteq> Blocked"
  by (simp add: Server_close_def call_eq split: option.splits)

lemma update_not_Blocked: "fst (Server_update_keep_alive_timeout env w) \<noteq> Blocked"
  by (simp add: update_unfold Let_def call_eq split: option.splits)

lemma send_not_Blocked: "fst (Server_protocol_send env ev w) \<noteq> Blocked"
proof (cases ev)
  case (RawData d)
  then show ?thesis
    using update_not_Blocked
    by (simp add: protocol_send_RawData Let_def split: option.splits)
next
  case Closed
  obtain r w1 where c: "Server_close env w = (r, w1)" by (cases "Server_close env w")
  then have "r \<noteq> Blocked" using close_not_Blocked [of env w] by simp
  then show ?thesis using Closed c update_not_Blocked [of env w1]
    by (cases r) (simp_all add: protocol_send_Closed)
qed

lemma spawn_not_Blocked: "fst (spawn_app env w) \<noteq> Blocked"
  by (simp add: spawn_app_def call_eq split: option.splits)

lemma engine_steps_not_Blocked: "fst (engine_steps env ss w) \<noteq> Blocked"
proof (induction env ss w rule: engine_steps.induct)
  case (2 env ev ss w)
  obtain r w1 where s: "Server_protocol_send env ev (record_action (Send ev) w) = (r, w1)"
    by (cases "Server_protocol_send env ev (record_action (Send ev) w)")
  then have "r \<noteq> Blocked" using send_not_Blocked [of env ev "record_action (Send ev) w"] by simp
  then show ?case using 2 s by (cases r) simp_all
next
  case (3 env ss w)
  obtain r w1 where s: "spawn_app env w = (r, w1)" by (cases "spawn_app env w")
  then have "r \<noteq> Blocked" using spawn_not_Blocked [of env w] by simp
  then show ?case using 3 s by (cases r) simp_all
qed simp_all

lemma protocol_call_not_Blocked: "fst (protocol_call env a w) \<noteq> Blocked"
  by (simp add: protocol_call_def Let_def engine_steps_not_Blocked)

subsection \<open>The read loop\<close>

text \<open>One iteration of the loop on a successful read.\<close>

lemma read_data_Data:
  obtains (engine_raises) e w2 xs where
      "Server_read_data env (Data d # rs) w = (Raise e, w2)"
      "protocol_call env (Handle (RawData d)) (record_action ReceiveSome w) = (Raise e, w2)"
      "trace w2 = trace w @ ReceiveSome # Handle (RawData d) # xs" "list_all callback_action xs"
      "teardowns xs \<le> count_list xs (Send Closed)"
  | (rearm_raises) e w2 w3 xs where
      "Server_read_data env (Data d # rs) w = (Raise e, w3)"
      "protocol_call env (Handle (RawData d)) (record_action ReceiveSome w) = (Return, w2)"
      "Server_update_keep_alive_timeout env w2 = (Raise e, w3)"
      "trace w3 = trace w @ ReceiveSome # Handle (RawData d) # xs" "list_all callback_action xs"
      "teardowns xs \<le> count_list xs (Send Closed)"
  | (continues) w2 w3 xs where
      "Server_read_data env (Data d # rs) w
         = (if d = [] then (Return, w3) else Server_read_data env rs w3)"
      "protocol_call env (Handle (RawData d)) (record_action ReceiveSome w) = (Return, w2)"
      "Server_update_keep_alive_timeout env w2 = (Return, w3)"
      "trace w3 = trace w @ ReceiveSome # Handle (RawData d) # xs" "list_all callback_action xs"
      "teardowns xs \<le> count_list xs (Send Closed)"
proof -
  let ?w1 = "record_action ReceiveSome w"
  obtain r2 w2 where p: "protocol_call env (Handle (RawData d)) ?w1 = (r2, w2)"
    by (cases "protocol_call env (Handle (RawData d)) ?w1")
  obtain xs where xs: "trace w2 = trace ?w1 @ Handle (RawData d) # xs" "list_all callback_action xs"
      "teardowns xs \<le> count_list xs (Send Closed)"
    using protocol_call_delta [of env "Handle (RawData d)" ?w1] p by auto
  have nb2: "r2 \<noteq> Blocked"
    using protocol_call_not_Blocked [of env "Handle (RawData d)" ?w1] p by simp
  obtain r3 w3 where u: "Server_update_keep_alive_timeout env w2 = (r3, w3)"
    by (cases "Server_update_keep_alive_timeout env w2")
  obtain ys where ys: "trace w3 = trace w2 @ ys" "list_all callback_action ys"
      "teardowns ys = 0" "count_list ys (Send Closed) = 0"
    using update_delta [of env w2] u by auto
  have nb3: "r3 \<noteq> Blocked" using update_not_Blocked [of env w2] u by simp
  show ?thesis
  proof (cases r2)
    case Return
    show ?thesis
    proof (cases r3)
      case Return
      show ?thesis
      proof (rule continues)
        show "Server_read_data env (Data d # rs) w
           = (if d = [] then (Return, w3) else Server_read_data env rs w3)"
          using p u \<open>r2 = Return\<close> Return by simp
        show "trace w3 = trace w @ ReceiveSome # Handle (RawData d) # (xs @ ys)"
          using xs ys by (simp add: trace_record_action)
        show "teardowns (xs @ ys) \<le> count_list (xs @ ys) (Send Closed)"
          using xs ys by (simp add: teardowns_def)
      qed (use p u \<open>r2 = Return\<close> Return xs ys in auto)
    next
      case (Raise e)
      show ?thesis
      proof (rule rearm_raises)
        show "Server_read_data env (Data d # rs) w = (Raise e, w3)"
          using p u \<open>r2 = Return\<close> Raise by simp
        show "trace w3 = trace w @ ReceiveSome # Handle (RawData d) # (xs @ ys)"
          using xs ys by (simp add: trace_record_action)
        show "teardowns (xs @ ys) \<le> count_list (xs @ ys) (Send Closed)"
          using xs ys by (simp add: teardowns_def)
      qed (use p u \<open>r2 = Return\<close> Raise xs ys in auto)
    next
      case Blocked
      then show ?thesis using nb3 by simp
    qed
  next
    case (Raise e)
    show ?thesis
    proof (rule engine_raises)
      show "Server_read_data env (Data d # rs) w = (Raise e, w2)"
        using p Raise by simp
      show "trace w2 = trace w @ ReceiveSome # Handle (RawData d) # xs"
        using xs by (simp add: trace_record_action)
    qed (use p Raise xs in auto)
  next
    case Blocked
    then show ?thesis using nb2 by simp
  qed
qed

lemma handled_iteration:
  "list_all callback_action xs \<Longrightarrow> handled (ReceiveSome # Handle ev # xs @ ys) = ev # handled ys"
  by (simp add: handled_append callback_actions_handled)

lemma reads_iteration:
  "list_all callback_action xs \<Longrightarrow>
   count_list (ReceiveSome # Handle ev # xs @ ys) ReceiveSome = Suc (count_list ys ReceiveSome)"
  by (simp add: callback_actions_count)

lemma read_data_successful_reads:
  assumes chunks: "\<forall>d \<in> set ds. d \<noteq> []"
  shows "\<exists>tr n. trace (snd (Server_read_data env (map Data ds @ Data [] # rest) w)) = trace w @ tr
     \<and> handled tr = take (Suc n) (map RawData ds @ [RawData []])
     \<and> count_list tr ReceiveSome = length (handled tr)
     \<and> fst (Server_read_data env (map Data ds @ Data [] # rest) w) \<noteq> Blocked
     \<and> (fst (Server_read_data env (map Data ds @ Data [] # rest) w) = Return
          \<longrightarrow> handled tr = map RawData ds @ [RawData []])
     \<and> ((\<forall>ev v. fst (protocol_call env (Handle ev) v) = Return)
          \<and> (\<forall>v. fst (Server_update_keep_alive_timeout env v) = Return)
          \<longrightarrow> fst (Server_read_data env (map Data ds @ Data [] # rest) w) = Return)"
  using chunks
proof (induction ds arbitrary: w)
  case Nil
  show ?case
  proof (cases rule: read_data_Data [of env "[]" rest w])
    case (engine_raises e w2 xs)
    have "\<not> (\<forall>ev v. fst (protocol_call env (Handle ev) v) = Return)"
      using engine_raises(2) by (metis fst_conv result.distinct(1))
    with engine_raises show ?thesis
      by (intro exI [of _ "ReceiveSome # Handle (RawData []) # xs"] exI [of _ 0])
        (auto simp add: handled_iteration [of xs _ "[]", simplified]
          reads_iteration [of xs _ "[]", simplified])
  next
    case (rearm_raises e w2 w3 xs)
    have "\<not> (\<forall>v. fst (Server_update_keep_alive_timeout env v) = Return)"
      using rearm_raises(3) by (metis fst_conv result.distinct(1))
    with rearm_raises show ?thesis
      by (intro exI [of _ "ReceiveSome # Handle (RawData []) # xs"] exI [of _ 0])
        (auto simp add: handled_iteration [of xs _ "[]", simplified]
          reads_iteration [of xs _ "[]", simplified])
  next
    case (continues w2 w3 xs)
    then show ?thesis
      by (intro exI [of _ "ReceiveSome # Handle (RawData []) # xs"] exI [of _ 0])
        (auto simp add: handled_iteration [of xs _ "[]", simplified]
          reads_iteration [of xs _ "[]", simplified])
  qed
next
  case (Cons d ds)
  then have d: "d \<noteq> []" and ds: "\<forall>d \<in> set ds. d \<noteq> []" by auto
  let ?rs = "map Data ds @ Data [] # rest"
  show ?case
  proof (cases rule: read_data_Data [of env d ?rs w])
    case (engine_raises e w2 xs)
    have "\<not> (\<forall>ev v. fst (protocol_call env (Handle ev) v) = Return)"
      using engine_raises(2) by (metis fst_conv result.distinct(1))
    with engine_raises show ?thesis
      by (intro exI [of _ "ReceiveSome # Handle (RawData d) # xs"] exI [of _ 0])
        (auto simp add: handled_iteration [of xs _ "[]", simplified]
          reads_iteration [of xs _ "[]", simplified])
  next
    case (rearm_raises e w2 w3 xs)
    have "\<not> (\<forall>v. fst (Server_update_keep_alive_timeout env v) = Return)"
      using rearm_raises(3) by (metis fst_conv result.distinct(1))
    with rearm_raises show ?thesis
      by (intro exI [of _ "ReceiveSome # Handle (RawData d) # xs"] exI [of _ 0])
        (auto simp add: handled_iteration [of xs _ "[]", simplified]
          reads_iteration [of xs _ "[]", simplified])
  next
    case (continues w2 w3 xs)
    from Cons.IH [OF ds, of w3] obtain tr n where
      tr: "trace (snd (Server_read_data env ?rs w3)) = trace w3 @ tr"
        "handled tr = take (Suc n) (map RawData ds @ [RawData []])"
        "count_list tr ReceiveSome = length (handled tr)"
        "fst (Server_read_data env ?rs w3) \<noteq> Blocked"
        "fst (Server_read_data env ?rs w3) = Return
          \<longrightarrow> handled tr = map RawData ds @ [RawData []]"
        "(\<forall>ev v. fst (protocol_call env (Handle ev) v) = Return)
          \<and> (\<forall>v. fst (Server_update_keep_alive_timeout env v) = Return)
          \<longrightarrow> fst (Server_read_data env ?rs w3) = Return"
      by blast
    have eq: "Server_read_data env (map Data (d # ds) @ Data [] # rest) w
        = Server_read_data env ?rs w3"
      using continues(1) d by simp
    let ?tr = "ReceiveSome # Handle (RawData d) # xs @ tr"
    let ?E = "map RawData ds @ [RawData []]"
    have h: "handled ?tr = RawData d # handled tr"
      using continues(5) by (rule handled_iteration)
    have c: "count_list ?tr ReceiveSome = Suc (count_list tr ReceiveSome)"
      using continues(5) by (rule reads_iteration)
    have t: "trace (snd (Server_read_data env ?rs w3)) = trace w @ ?tr"
      using tr(1) continues(4) by simp
    have E: "map RawData (d # ds) @ [RawData []] = RawData d # ?E"
      by simp
    have 1: "handled ?tr = take (Suc (Suc n)) (RawData d # ?E)"
      unfolding h tr(2) by simp
    have 2: "count_list ?tr ReceiveSome = length (handled ?tr)"
      unfolding h c tr(3) by simp
    have 3: "fst (Server_read_data env ?rs w3) = Return \<longrightarrow> handled ?tr = RawData d # ?E"
      unfolding h using tr(5) by simp
    show ?thesis
      unfolding eq E using t 1 2 3 tr(4) tr(6) by blast
  qed
qed

text \<open>
  Claim C4. The reads are any chunks of bytes followed by a zero-length read (and
  anything after it). The loop never waits for a further read; the events it hands to
  \<^verbatim>\<open>Protocol.handle\<close> are a non-empty initial part of the \<^verbatim>\<open>RawData\<close> events of the
  reads, in arrival order, one for every read made; when the loop returns they are all
  of them, the last being \<^verbatim>\<open>RawData(b"")\<close>; and the loop does return when the calls
  of \<^verbatim>\<open>handle\<close> and the rearms of the timer return.
\<close>

theorem read_data_delivers_in_order:
  assumes chunks: "\<forall>d \<in> set ds. d \<noteq> []"
  shows "fst (Server_read_data env (map Data ds @ Data [] # rest) w) \<noteq> Blocked
     \<and> (\<exists>n. handled (added w (snd (Server_read_data env (map Data ds @ Data [] # rest) w)))
             = take (Suc n) (map RawData ds @ [RawData []]))
     \<and> count_list (added w (snd (Server_read_data env (map Data ds @ Data [] # rest) w))) ReceiveSome
         = length (handled (added w (snd (Server_read_data env (map Data ds @ Data [] # rest) w))))
     \<and> (fst (Server_read_data env (map Data ds @ Data [] # rest) w) = Return
          \<longrightarrow> handled (added w (snd (Server_read_data env (map Data ds @ Data [] # rest) w)))
                = map RawData ds @ [RawData []])
     \<and> ((\<forall>ev v. fst (protocol_call env (Handle ev) v) = Return)
          \<and> (\<forall>v. fst (Server_update_keep_alive_timeout env v) = Return)
          \<longrightarrow> fst (Server_read_data env (map Data ds @ Data [] # rest) w) = Return)"
proof -
  obtain tr n where tr:
    "trace (snd (Server_read_data env (map Data ds @ Data [] # rest) w)) = trace w @ tr"
    "handled tr = take (Suc n) (map RawData ds @ [RawData []])"
    "count_list tr ReceiveSome = length (handled tr)"
    "fst (Server_read_data env (map Data ds @ Data [] # rest) w) \<noteq> Blocked"
    "fst (Server_read_data env (map Data ds @ Data [] # rest) w) = Return
          \<longrightarrow> handled tr = map RawData ds @ [RawData []]"
    "(\<forall>ev v. fst (protocol_call env (Handle ev) v) = Return)
          \<and> (\<forall>v. fst (Server_update_keep_alive_timeout env v) = Return)
          \<longrightarrow> fst (Server_read_data env (map Data ds @ Data [] # rest) w) = Return"
    using read_data_successful_reads [OF chunks, of env rest w] by blast
  have a: "added w (snd (Server_read_data env (map Data ds @ Data [] # rest) w)) = tr"
    using tr(1) by (simp add: added_def)
  show ?thesis
    unfolding a using tr(2-6) by blast
qed

theorem read_data_delivers_in_order_witness:
  "fst (Server_read_data quiet_env [Data ''GET / ...'', Data [], Data ''late''] new_connection)
     = Return
   \<and> handled (added new_connection
        (snd (Server_read_data quiet_env [Data ''GET / ...'', Data [], Data ''late'']
               new_connection)))
       = [RawData ''GET / ...'', RawData []]"
proof -
  have chunks: "\<forall>d \<in> set [''GET / ...'']. d \<noteq> []"
    by simp
  have quiet: "(\<forall>ev v. fst (protocol_call quiet_env (Handle ev) v) = Return)
      \<and> (\<forall>v. fst (Server_update_keep_alive_timeout quiet_env v) = Return)"
    by (simp add: protocol_call_def update_unfold quiet_env_def Let_def
        split: option.splits)
  show ?thesis
    using read_data_delivers_in_order [OF chunks, of quiet_env "[Data ''late'']" new_connection]
      quiet
    by simp
qed

lemma closings_append: "closings (xs @ ys) = closings xs + closings ys"
  by (simp add: closings_def)

lemma teardowns_append: "teardowns (xs @ ys) = teardowns xs + teardowns ys"
  by (simp add: teardowns_def)

lemma callback_bound:
  "list_all callback_action xs \<Longrightarrow> teardowns xs \<le> count_list xs (Send Closed) \<Longrightarrow>
   teardowns xs \<le> closings xs \<and> count_list xs ReceiveSome = 0"
  by (simp add: closings_def callback_actions_count)

text \<open>One iteration of the loop, whatever the read ends with.\<close>

lemma read_data_step:
  obtains (stops) r w' xs where
      "Server_read_data env (r0 # rs) w = (r, w')" "r \<noteq> Blocked"
      "trace w' = trace w @ ReceiveSome # xs" "count_list xs ReceiveSome = 0"
      "teardowns xs \<le> closings xs"
      "(\<exists>e. r0 = ReadRaises e \<and> (e = ClosedResourceError \<or> e = BrokenResourceError))
         \<longrightarrow> r = Return \<and> xs = []"
  | (continues) w3 xs where
      "Server_read_data env (r0 # rs) w = Server_read_data env rs w3"
      "trace w3 = trace w @ ReceiveSome # xs" "count_list xs ReceiveSome = 0"
      "teardowns xs \<le> closings xs"
      "\<not> (\<exists>e. r0 = ReadRaises e \<and> (e = ClosedResourceError \<or> e = BrokenResourceError))"
proof (cases r0)
  case (Data d)
  show ?thesis
  proof (cases rule: read_data_Data [of env d rs w])
    case (engine_raises e w2 xs)
    have "teardowns (Handle (RawData d) # xs) \<le> closings (Handle (RawData d) # xs)"
      "count_list (Handle (RawData d) # xs) ReceiveSome = 0"
      using callback_bound [OF engine_raises(4,5)] by (simp_all add: teardowns_def closings_def)
    then show ?thesis using engine_raises Data by (intro stops [of "Raise e" w2]) auto
  next
    case (rearm_raises e w2 w3 xs)
    have "teardowns (Handle (RawData d) # xs) \<le> closings (Handle (RawData d) # xs)"
      "count_list (Handle (RawData d) # xs) ReceiveSome = 0"
      using callback_bound [OF rearm_raises(5,6)] by (simp_all add: teardowns_def closings_def)
    then show ?thesis using rearm_raises Data by (intro stops [of "Raise e" w3]) auto
  next
    case (continues w2 w3 xs)
    have b: "teardowns (Handle (RawData d) # xs) \<le> closings (Handle (RawData d) # xs)"
      "count_list (Handle (RawData d) # xs) ReceiveSome = 0"
      using callback_bound [OF continues(5,6)] by (simp_all add: teardowns_def closings_def)
    show ?thesis
    proof (cases "d = []")
      case True
      then show ?thesis using b continues Data by (intro stops [of Return w3]) auto
    next
      case False
      then show ?thesis using b continues Data
        by (intro that(2) [of w3 "Handle (RawData d) # xs"]) auto
    qed
  qed
next
  case (ReadRaises e)
  let ?w1 = "record_action ReceiveSome w"
  show ?thesis
  proof (cases "e = TooSlowError")
    case True
    obtain r2 w2 where p: "protocol_call env (Handle Closed) ?w1 = (r2, w2)"
      by (cases "protocol_call env (Handle Closed) ?w1")
    obtain xs where xs: "trace w2 = trace ?w1 @ Handle Closed # xs" "list_all callback_action xs"
      "teardowns xs \<le> count_list xs (Send Closed)"
      using protocol_call_delta [of env "Handle Closed" ?w1] p by auto
    have nb2: "r2 \<noteq> Blocked"
      using protocol_call_not_Blocked [of env "Handle Closed" ?w1] p by simp
    obtain r3 w3 where c: "Server_close env w2 = (r3, w3)" by (cases "Server_close env w2")
    obtain ys where ys: "trace w3 = trace w2 @ ys" "list_all callback_action ys"
      "teardowns ys = 1" "count_list ys (Send Closed) = 0"
      using close_delta [of env w2] c by auto
    have nb3: "r3 \<noteq> Blocked" using close_not_Blocked [of env w2] c by simp
    have bx: "teardowns (Handle Closed # xs) \<le> closings (Handle Closed # xs)"
       "count_list (Handle Closed # xs) ReceiveSome = 0"
      using callback_bound [OF xs(2,3)] by (simp_all add: teardowns_def closings_def)
    have bxy: "teardowns (Handle Closed # xs @ ys) \<le> closings (Handle Closed # xs @ ys)"
       "count_list (Handle Closed # xs @ ys) ReceiveSome = 0"
      using callback_bound [OF xs(2,3)] ys
      by (simp_all add: teardowns_def closings_def callback_actions_count)
    show ?thesis
    proof (cases "r2 = Return")
      case r2: True
      show ?thesis
      proof (cases "r3 = Return")
        case r3: True
        have "Server_read_data env (r0 # rs) w = Server_read_data env rs w3"
          using ReadRaises True p c r2 r3 by simp
        moreover have "trace w3 = trace w @ ReceiveSome # Handle Closed # xs @ ys"
          using xs ys by (simp add: trace_record_action)
        ultimately show ?thesis using bxy ReadRaises True
          by (intro that(2) [of w3 "Handle Closed # xs @ ys"]) auto
      next
        case False
        then have "Server_read_data env (r0 # rs) w = (r3, w3)"
          using ReadRaises True p c r2 by (cases r3) simp_all
        moreover have "trace w3 = trace w @ ReceiveSome # Handle Closed # xs @ ys"
          using xs ys by (simp add: trace_record_action)
        ultimately show ?thesis using bxy ReadRaises True nb3
          by (intro stops [of r3 w3 "Handle Closed # xs @ ys"]) auto
      qed
    next
      case False
      then have "Server_read_data env (r0 # rs) w = (r2, w2)"
        using ReadRaises True p by (cases r2) simp_all
      moreover have "trace w2 = trace w @ ReceiveSome # Handle Closed # xs"
        using xs by (simp add: trace_record_action)
      ultimately show ?thesis using bx ReadRaises True nb2
        by (intro stops [of r2 w2 "Handle Closed # xs"]) auto
    qed
  next
    case False
    then have "\<exists>r. Server_read_data env (r0 # rs) w = (r, ?w1) \<and> r \<noteq> Blocked
       \<and> (e = ClosedResourceError \<or> e = BrokenResourceError \<longrightarrow> r = Return)"
      using ReadRaises by (simp add: Let_def)
    then obtain r where "Server_read_data env (r0 # rs) w = (r, ?w1)" "r \<noteq> Blocked"
       "e = ClosedResourceError \<or> e = BrokenResourceError \<longrightarrow> r = Return"
      by blast
    then show ?thesis using ReadRaises
      by (intro stops [of r ?w1 "[]"])
        (auto simp add: trace_record_action teardowns_def closings_def)
  qed
qed

lemma read_data_delta:
  "\<exists>xs. trace (snd (Server_read_data env rs w)) = trace w @ ReceiveSome # xs
     \<and> teardowns xs \<le> closings xs
     \<and> count_list (ReceiveSome # xs) ReceiveSome \<le> Suc (length rs)"
proof (induction rs arbitrary: w)
  case Nil
  then show ?case by (simp add: trace_record_action teardowns_def closings_def)
next
  case (Cons r0 rs)
  show ?case
  proof (cases rule: read_data_step [of env r0 rs w])
    case (stops r w' xs)
    then show ?thesis by auto
  next
    case (continues w3 xs)
    obtain ys where ys: "trace (snd (Server_read_data env rs w3)) = trace w3 @ ReceiveSome # ys"
      "teardowns ys \<le> closings ys" "count_list (ReceiveSome # ys) ReceiveSome \<le> Suc (length rs)"
      using Cons.IH [of w3] by blast
    have "teardowns (xs @ ReceiveSome # ys) \<le> closings (xs @ ReceiveSome # ys)"
      using continues(4) ys(2) by (simp add: teardowns_def closings_def)
    then show ?thesis using continues ys
      by (intro exI [of _ "xs @ ReceiveSome # ys"]) auto
  qed
qed

text \<open>The loop never gets past a read that the transport rejects.\<close>

lemma read_data_receives:
  assumes "e = ClosedResourceError \<or> e = BrokenResourceError"
  shows "count_list (added w (snd (Server_read_data env (rs1 @ ReadRaises e # rs2) w))) ReceiveSome
           \<le> Suc (length rs1)"
proof (induction rs1 arbitrary: w)
  case Nil
  show ?case using assms by (auto simp add: Let_def added_def trace_record_action)
next
  case (Cons r0 rs1)
  let ?rs = "rs1 @ ReadRaises e # rs2"
  show ?case
  proof (cases rule: read_data_step [of env r0 ?rs w])
    case (stops r w' xs)
    then have "added w (snd (Server_read_data env ((r0 # rs1) @ ReadRaises e # rs2) w))
        = ReceiveSome # xs"
      by (simp add: added_def)
    then show ?thesis using stops(4) by simp
  next
    case (continues w3 xs)
    obtain ys where ys: "trace (snd (Server_read_data env ?rs w3)) = trace w3 @ ReceiveSome # ys"
      using read_data_delta [of env ?rs w3] by blast
    have a: "added w (snd (Server_read_data env ((r0 # rs1) @ ReadRaises e # rs2) w))
        = ReceiveSome # xs @ added w3 (snd (Server_read_data env ?rs w3))"
      using continues(1,2) ys by (simp add: added_def)
    show ?thesis
      unfolding a using Cons.IH [of w3] continues(3) by simp
  qed
qed

text \<open>The loop that reaches a read the transport rejects ends there.\<close>

lemma read_data_rejected:
  assumes "e = ClosedResourceError \<or> e = BrokenResourceError"
    and "Suc (length rs1)
           \<le> count_list (added w (snd (Server_read_data env (rs1 @ ReadRaises e # rs2) w)))
               ReceiveSome"
  shows "fst (Server_read_data env (rs1 @ ReadRaises e # rs2) w) = Return
       \<and> last (added w (snd (Server_read_data env (rs1 @ ReadRaises e # rs2) w))) = ReceiveSome"
  using assms(2)
proof (induction rs1 arbitrary: w)
  case Nil
  show ?case using assms(1) by (auto simp add: Let_def added_def trace_record_action)
next
  case (Cons r0 rs1)
  let ?rs = "rs1 @ ReadRaises e # rs2"
  show ?case
  proof (cases rule: read_data_step [of env r0 ?rs w])
    case (stops r w' xs)
    then have "added w (snd (Server_read_data env ((r0 # rs1) @ ReadRaises e # rs2) w))
        = ReceiveSome # xs"
      by (simp add: added_def)
    then show ?thesis using Cons.prems stops(4) by simp
  next
    case (continues w3 xs)
    obtain ys where ys: "trace (snd (Server_read_data env ?rs w3)) = trace w3 @ ReceiveSome # ys"
      using read_data_delta [of env ?rs w3] by blast
    have a: "added w (snd (Server_read_data env ((r0 # rs1) @ ReadRaises e # rs2) w))
        = ReceiveSome # xs @ added w3 (snd (Server_read_data env ?rs w3))"
      using continues(1,2) ys by (simp add: added_def)
    have a3: "added w3 (snd (Server_read_data env ?rs w3)) = ReceiveSome # ys"
      using ys by (simp add: added_def)
    have "Suc (length rs1)
        \<le> count_list (added w3 (snd (Server_read_data env ?rs w3))) ReceiveSome"
      using Cons.prems continues(3) unfolding a by simp
    from Cons.IH [OF this] show ?thesis
      using continues(1) a a3 by simp
  qed
qed

text \<open>
  Claim C3, as stated, fails: the engine answers the first bytes by emitting
  \<^verbatim>\<open>Closed\<close>, the connection is torn down, and the loop goes on to another
  \<^verbatim>\<open>receive_some\<close>.
\<close>

theorem no_io_after_closed_counterexample:
  "\<not> no_io_after_closed
       (trace (snd (Server_run closing_engine_env
                      [Data ''x'', ReadRaises ClosedResourceError] new_connection)))"
  by (simp add: Server_run_def negotiate_def guarded_scope_def nursery_body_def nursery_exit_def
      protocol_call_def protocol_send_RawData protocol_send_Closed Server_close_def
      update_unfold call_eq record_action_def closing_engine_env_def
      quiet_env_def new_connection_def Let_def)

text \<open>
  Claim C3, amended. The connection keeps no record that \<^verbatim>\<open>Closed\<close> was fed to the
  engine or emitted by it, so that a \<^verbatim>\<open>receive_some\<close> and a write that the engine
  asks for may follow. What ends the reads is the transport: when the transport
  rejects the read after \<open>n\<close> earlier ones with \<^verbatim>\<open>ClosedResourceError\<close> or
  \<^verbatim>\<open>BrokenResourceError\<close>, as a transport that was torn down does, the loop attempts
  at most \<open>n + 1\<close> reads, whatever the transport would have delivered afterwards;
  and if it attempts that many, it attempts exactly that many, returns normally, and the
  rejected read is its last action.
\<close>

theorem read_loop_ends_at_rejected_read:
  assumes "e = ClosedResourceError \<or> e = BrokenResourceError"
  shows "count_list (added w (snd (Server_read_data env (rs1 @ ReadRaises e # rs2) w))) ReceiveSome
           \<le> Suc (length rs1)
       \<and> (Suc (length rs1)
            \<le> count_list (added w (snd (Server_read_data env (rs1 @ ReadRaises e # rs2) w)))
                ReceiveSome
          \<longrightarrow> count_list (added w (snd (Server_read_data env (rs1 @ ReadRaises e # rs2) w)))
                ReceiveSome = Suc (length rs1)
            \<and> fst (Server_read_data env (rs1 @ ReadRaises e # rs2) w) = Return
            \<and> last (added w (snd (Server_read_data env (rs1 @ ReadRaises e # rs2) w)))
                = ReceiveSome)"
proof -
  let ?n = "count_list (added w (snd (Server_read_data env (rs1 @ ReadRaises e # rs2) w)))
              ReceiveSome"
  have le: "?n \<le> Suc (length rs1)"
    by (rule read_data_receives [OF assms])
  have rej: "fst (Server_read_data env (rs1 @ ReadRaises e # rs2) w) = Return
       \<and> last (added w (snd (Server_read_data env (rs1 @ ReadRaises e # rs2) w))) = ReceiveSome"
    if "Suc (length rs1) \<le> ?n"
    using read_data_rejected [OF assms that] .
  have eq: "?n = Suc (length rs1)" if "Suc (length rs1) \<le> ?n"
    using le that by (rule le_antisym)
  show ?thesis using le rej eq by blast
qed

theorem read_loop_ends_at_rejected_read_witness:
  "count_list (added new_connection (snd (Server_read_data closing_engine_env
          ([Data ''x''] @ ReadRaises ClosedResourceError # [Data ''y'']) new_connection)))
        ReceiveSome = 2
   \<and> fst (Server_read_data closing_engine_env
          ([Data ''x''] @ ReadRaises ClosedResourceError # [Data ''y'']) new_connection) = Return
   \<and> last (added new_connection (snd (Server_read_data closing_engine_env
          ([Data ''x''] @ ReadRaises ClosedResourceError # [Data ''y'']) new_connection)))
       = ReceiveSome"
proof -
  have reached: "count_list (added new_connection (snd (Server_read_data closing_engine_env
          ([Data ''x''] @ ReadRaises ClosedResourceError # [Data ''y'']) new_connection)))
        ReceiveSome = Suc (length [Data ''x''])"
    by (simp add: protocol_call_def protocol_send_RawData protocol_send_Closed Server_close_def
      update_unfold call_eq record_action_def closing_engine_env_def
      quiet_env_def new_connection_def Let_def added_def)
  show ?thesis
    using read_loop_ends_at_rejected_read [of ClosedResourceError new_connection
        closing_engine_env "[Data ''x'']" "[Data ''y'']"] reached
    by simp
qed

subsection \<open>The connection loop\<close>

lemma call_raises: "fst (call env a w) = Raise e \<Longrightarrow> \<exists>tr. outcome env tr = Some e"
  by (auto simp add: call_eq split: option.splits)

lemma close_raises: "fst (Server_close env w) = Raise e \<Longrightarrow> \<exists>tr. outcome env tr = Some e"
  by (auto simp add: Server_close_def call_eq split: option.splits if_splits)

lemma not_ssl_delta:
  "\<exists>xs. trace (snd (not_ssl env w)) = trace w @ xs \<and> list_all setup_action xs
     \<and> (\<forall>e. fst (not_ssl env w) = NegotiationRaised e \<longrightarrow> (\<exists>tr. outcome env tr = Some e))
     \<and> fst (not_ssl env w) \<noteq> HandshakeFailed"
  by (auto simp add: not_ssl_def call_eq trace_record_action split: option.splits)

lemma negotiate_delta:
  "\<exists>xs. trace (snd (negotiate env w)) = trace w @ xs \<and> list_all setup_action xs
     \<and> (\<forall>e. fst (negotiate env w) = NegotiationRaised e \<longrightarrow> (\<exists>tr. outcome env tr = Some e))"
proof -
  have n: "\<exists>xs. trace (snd (not_ssl env v)) = trace w @ ys @ xs \<and> list_all setup_action (ys @ xs)
     \<and> (\<forall>e. fst (not_ssl env v) = NegotiationRaised e \<longrightarrow> (\<exists>tr. outcome env tr = Some e))"
    if "trace v = trace w @ ys" "list_all setup_action ys" for v ys
    using not_ssl_delta [of env v] that by auto
  show ?thesis
    using n [of "record_action DoHandshake w" "[DoHandshake]"]
      n [of "record_action SelectedAlpnProtocol (record_action DoHandshake w)"
           "[DoHandshake, SelectedAlpnProtocol]"]
      n [of "record_action TransportStreamSocket
              (record_action SelectedAlpnProtocol (record_action DoHandshake w))"
           "[DoHandshake, SelectedAlpnProtocol, TransportStreamSocket]"]
    by (auto simp add: negotiate_def call_eq trace_record_action split: option.splits)
qed

lemma setup_actions:
  "list_all setup_action xs \<Longrightarrow>
   ReceiveSome \<notin> set xs \<and> teardowns xs = 0 \<and> closings xs = 0"
  by (induction xs) (auto simp add: teardowns_def closings_def elim: setup_action.elims)

lemma nursery_body_delta:
  "\<exists>xs. trace (snd (nursery_body env ssl a rs w)) = trace w @ ProtocolWrapper ssl a # xs
     \<and> teardowns xs \<le> closings xs"
proof -
  let ?w0 = "record_action (ProtocolWrapper ssl a) w"
  obtain r1 w1 where i: "protocol_call env Initiate ?w0 = (r1, w1)"
    by (cases "protocol_call env Initiate ?w0")
  obtain xs where xs: "trace w1 = trace ?w0 @ Initiate # xs" "list_all callback_action xs"
    "teardowns xs \<le> count_list xs (Send Closed)"
    using protocol_call_delta [of env Initiate ?w0] i by auto
  have bx: "teardowns (Initiate # xs) \<le> closings (Initiate # xs)"
    using callback_bound [OF xs(2,3)] by (simp add: teardowns_def closings_def)
  obtain r2 w2 where u: "Server_update_keep_alive_timeout env w1 = (r2, w2)"
    by (cases "Server_update_keep_alive_timeout env w1")
  obtain ys where ys: "trace w2 = trace w1 @ ys" "list_all callback_action ys"
      "teardowns ys = 0" "count_list ys (Send Closed) = 0"
    using update_delta [of env w1] u by auto
  have bxy: "teardowns (Initiate # xs @ ys) \<le> closings (Initiate # xs @ ys)"
    using bx ys by (simp add: teardowns_def closings_def)
  obtain zs where zs: "trace (snd (Server_read_data env rs w2)) = trace w2 @ ReceiveSome # zs"
     "teardowns zs \<le> closings zs"
    using read_data_delta [of env rs w2] by blast
  have bxyz: "teardowns (Initiate # xs @ ys @ ReceiveSome # zs)
       \<le> closings (Initiate # xs @ ys @ ReceiveSome # zs)"
    using bxy zs(2) by (simp add: teardowns_def closings_def)
  consider "nursery_body env ssl a rs w = (fst (call env (ProtocolWrapper ssl a) w), ?w0)"
    | "nursery_body env ssl a rs w = (r1, w1)"
    | "nursery_body env ssl a rs w = (r2, w2)"
    | "nursery_body env ssl a rs w = Server_read_data env rs w2"
    using i u
    by (cases "outcome env (trace w @ [ProtocolWrapper ssl a])"; cases r1; cases r2)
      (simp_all add: nursery_body_def call_eq)
  then show ?thesis
  proof cases
    case 1
    then show ?thesis by (simp add: trace_record_action teardowns_def closings_def)
  next
    case 2
    then show ?thesis using xs bx by (simp add: trace_record_action)
  next
    case 3
    then show ?thesis using xs ys bxy
      by (intro exI [of _ "Initiate # xs @ ys"]) (simp add: trace_record_action)
  next
    case 4
    then show ?thesis using xs ys zs bxyz
      by (intro exI [of _ "Initiate # xs @ ys @ ReceiveSome # zs"]) (simp add: trace_record_action)
  qed
qed

lemma guarded_scope_delta:
  "\<exists>xs cl. trace (snd (guarded_scope env ssl a rs w)) = trace w @ ProtocolWrapper ssl a # xs @ cl
     \<and> teardowns xs \<le> closings xs
     \<and> (if fst (guarded_scope env ssl a rs w) = Blocked then cl = []
        else cl = [SendEof] \<or> cl = [SendEof, Aclose])
     \<and> (\<forall>e. fst (guarded_scope env ssl a rs w) = Raise e \<longrightarrow>
           (\<exists>tr. outcome env tr = Some e)
         \<or> \<not> is_MultiError e \<and> (\<exists>body. nursery_exit env body = Raise e))"
proof -
  obtain b w1 where nb: "nursery_body env ssl a rs w = (b, w1)"
    by (cases "nursery_body env ssl a rs w")
  obtain xs where xs: "trace w1 = trace w @ ProtocolWrapper ssl a # xs" "teardowns xs \<le> closings xs"
    using nursery_body_delta [of env ssl a rs w] nb by auto
  obtain rc w2 where c: "Server_close env w1 = (rc, w2)" by (cases "Server_close env w1")
  obtain cl where cl: "trace w2 = trace w1 @ cl" "cl = [SendEof] \<or> cl = [SendEof, Aclose]"
    using close_delta [of env w1] c by auto
  have nbc: "rc \<noteq> Blocked" using close_not_Blocked [of env w1] c by simp
  have rcr: "rc = Raise e \<Longrightarrow> \<exists>tr. outcome env tr = Some e" for e
    using close_raises [of env w1 e] c by simp
  show ?thesis
  proof (cases "nursery_exit env b")
    case Blocked
    then have "guarded_scope env ssl a rs w = (Blocked, w1)"
      using nb by (simp add: guarded_scope_def)
    then show ?thesis using xs by (intro exI [of _ xs] exI [of _ "[]"]) simp
  next
    case Return
    then have "guarded_scope env ssl a rs w = (rc, w2)"
      using nb c by (cases rc) (simp_all add: guarded_scope_def)
    then show ?thesis using xs cl nbc rcr
      by (intro exI [of _ xs] exI [of _ cl]) auto
  next
    case (Raise e)
    then have "guarded_scope env ssl a rs w
        = (if rc = Return then (if is_MultiError e then Return else Raise e) else rc, w2)"
      using nb c by (cases rc) (simp_all add: guarded_scope_def)
    then show ?thesis using xs cl nbc rcr Raise
      by (intro exI [of _ xs] exI [of _ cl]) auto
  qed
qed

text \<open>What \<^verbatim>\<open>run\<close> adds to the trace: the setup, then the scope and the teardown.\<close>

lemma run_delta:
  "\<exists>su. list_all setup_action su \<and>
     (trace (snd (Server_run env rs w)) = trace w @ su \<and> fst (Server_run env rs w) \<noteq> Blocked
        \<and> (\<forall>e. fst (Server_run env rs w) = Raise e \<longrightarrow> (\<exists>tr. outcome env tr = Some e))
      \<or> (\<exists>ssl a xs cl.
           trace (snd (Server_run env rs w)) = trace w @ su @ ProtocolWrapper ssl a # xs @ cl
         \<and> teardowns xs \<le> closings xs
         \<and> (if fst (Server_run env rs w) = Blocked then cl = []
            else cl = [SendEof] \<or> cl = [SendEof, Aclose])
         \<and> (\<forall>e. fst (Server_run env rs w) = Raise e \<longrightarrow>
               (\<exists>tr. outcome env tr = Some e)
             \<or> \<not> is_MultiError e \<and> (\<exists>body. nursery_exit env body = Raise e))))"
proof -
  obtain n w1 where neg: "negotiate env w = (n, w1)" by (cases "negotiate env w")
  obtain su where su: "trace w1 = trace w @ su" "list_all setup_action su"
    "\<forall>e. n = NegotiationRaised e \<longrightarrow> (\<exists>tr. outcome env tr = Some e)"
    using negotiate_delta [of env w] neg by auto
  show ?thesis
  proof (cases n)
    case HandshakeFailed
    then show ?thesis using neg su by (intro exI [of _ su]) (simp add: Server_run_def)
  next
    case (NegotiationRaised e)
    then show ?thesis using neg su by (intro exI [of _ su]) (simp add: Server_run_def)
  next
    case (Negotiated ssl a)
    let ?w2 = "record_action ParseClientAddr w1"
    let ?w3 = "record_action ParseServerAddr ?w2"
    consider (client) e where "Server_run env rs w = (Raise e, ?w2)" "outcome env (trace ?w2) = Some e"
      | (server) e where "Server_run env rs w = (Raise e, ?w3)" "outcome env (trace ?w3) = Some e"
      | (scope) "Server_run env rs w = guarded_scope env ssl a rs ?w3"
      using neg Negotiated
      by (cases "outcome env (trace ?w2)"; cases "outcome env (trace ?w3)")
        (simp_all add: Server_run_def call_eq trace_record_action)
    then show ?thesis
    proof cases
      case client
      then show ?thesis using su
        by (intro exI [of _ "su @ [ParseClientAddr]"]) (auto simp add: trace_record_action)
    next
      case server
      then show ?thesis using su
        by (intro exI [of _ "su @ [ParseClientAddr, ParseServerAddr]"])
          (auto simp add: trace_record_action)
    next
      case scope
      obtain xs cl where g:
        "trace (snd (guarded_scope env ssl a rs ?w3)) = trace ?w3 @ ProtocolWrapper ssl a # xs @ cl"
        "teardowns xs \<le> closings xs"
        "if fst (guarded_scope env ssl a rs ?w3) = Blocked then cl = []
         else cl = [SendEof] \<or> cl = [SendEof, Aclose]"
        "\<forall>e. fst (guarded_scope env ssl a rs ?w3) = Raise e \<longrightarrow>
           (\<exists>tr. outcome env tr = Some e)
         \<or> \<not> is_MultiError e \<and> (\<exists>body. nursery_exit env body = Raise e)"
        using guarded_scope_delta [of env ssl a rs ?w3] by blast
      let ?su = "su @ [ParseClientAddr, ParseServerAddr]"
      have t: "trace (snd (Server_run env rs w))
          = trace w @ ?su @ ProtocolWrapper ssl a # xs @ cl"
        using g(1) su scope by (simp add: trace_record_action)
      have s: "list_all setup_action ?su"
        using su(2) by simp
      have "\<exists>ssl a xs cl.
           trace (snd (Server_run env rs w)) = trace w @ ?su @ ProtocolWrapper ssl a # xs @ cl
         \<and> teardowns xs \<le> closings xs
         \<and> (if fst (Server_run env rs w) = Blocked then cl = []
            else cl = [SendEof] \<or> cl = [SendEof, Aclose])
         \<and> (\<forall>e. fst (Server_run env rs w) = Raise e \<longrightarrow>
               (\<exists>tr. outcome env tr = Some e)
             \<or> \<not> is_MultiError e \<and> (\<exists>body. nursery_exit env body = Raise e))"
        using t g(2-4) unfolding scope by blast
      with s show ?thesis by blast
    qed
  qed
qed

lemma trace_new_connection: "trace new_connection = []"
  by (simp add: new_connection_def)

text \<open>
  Claim C9. When the handshake fails with \<^verbatim>\<open>BrokenResourceError\<close> or exceeds its
  deadline, \<^verbatim>\<open>run\<close> returns at once: the handshake is all it has done, so no engine
  was constructed or called and nothing was torn down. When the transport has no
  handshake (and its socket and addresses are obtained), the engine is constructed with
  the ssl flag false and the protocol \<^verbatim>\<open>"http/1.1"\<close>.
\<close>

theorem handshake_failure_and_plain_transport:
  "(outcome env (trace w @ [DoHandshake]) = Some BrokenResourceError
      \<or> outcome env (trace w @ [DoHandshake]) = Some TooSlowError
      \<longrightarrow> Server_run env rs w = (Return, record_action DoHandshake w))
   \<and> (outcome env (trace w @ [DoHandshake]) = Some AttributeError
      \<and> outcome env (trace w @ [DoHandshake, StreamSocket]) = None
      \<and> outcome env (trace w @ [DoHandshake, StreamSocket, ParseClientAddr]) = None
      \<and> outcome env (trace w @ [DoHandshake, StreamSocket, ParseClientAddr, ParseServerAddr])
          = None
      \<longrightarrow> take 5 (added w (snd (Server_run env rs w)))
            = [DoHandshake, StreamSocket, ParseClientAddr, ParseServerAddr,
               ProtocolWrapper False ''http/1.1''])"
proof (intro conjI impI)
  assume "outcome env (trace w @ [DoHandshake]) = Some BrokenResourceError
      \<or> outcome env (trace w @ [DoHandshake]) = Some TooSlowError"
  then show "Server_run env rs w = (Return, record_action DoHandshake w)"
    by (auto simp add: Server_run_def negotiate_def call_eq)
next
  let ?w4 = "record_action ParseServerAddr (record_action ParseClientAddr
               (record_action StreamSocket (record_action DoHandshake w)))"
  assume "outcome env (trace w @ [DoHandshake]) = Some AttributeError
      \<and> outcome env (trace w @ [DoHandshake, StreamSocket]) = None
      \<and> outcome env (trace w @ [DoHandshake, StreamSocket, ParseClientAddr]) = None
      \<and> outcome env (trace w @ [DoHandshake, StreamSocket, ParseClientAddr, ParseServerAddr])
          = None"
  then have run: "Server_run env rs w = guarded_scope env False ''http/1.1'' rs ?w4"
    by (simp add: Server_run_def negotiate_def not_ssl_def call_eq trace_record_action)
  obtain xs cl where
    "trace (snd (guarded_scope env False ''http/1.1'' rs ?w4))
       = trace ?w4 @ ProtocolWrapper False ''http/1.1'' # xs @ cl"
    using guarded_scope_delta [of env False "''http/1.1''" rs ?w4] by blast
  then show "take 5 (added w (snd (Server_run env rs w)))
            = [DoHandshake, StreamSocket, ParseClientAddr, ParseServerAddr,
               ProtocolWrapper False ''http/1.1'']"
    unfolding run by (simp add: added_def trace_record_action)
qed

theorem handshake_failure_and_plain_transport_witness:
  "Server_run handshake_timeout_env [Data ''GET''] new_connection
     = (Return, \<lparr>trace = [DoHandshake], keep_alive_timeout_handle = None, timers = []\<rparr>)
   \<and> take 5 (added new_connection (snd (Server_run plain_transport_env [Data ''GET'']
        new_connection)))
       = [DoHandshake, StreamSocket, ParseClientAddr, ParseServerAddr,
          ProtocolWrapper False ''http/1.1'']"
proof -
  have slow: "outcome handshake_timeout_env (trace new_connection @ [DoHandshake])
      = Some TooSlowError"
    by (simp add: handshake_timeout_env_def quiet_env_def)
  have plain: "outcome plain_transport_env (trace new_connection @ [DoHandshake])
        = Some AttributeError
      \<and> outcome plain_transport_env (trace new_connection @ [DoHandshake, StreamSocket]) = None
      \<and> outcome plain_transport_env
          (trace new_connection @ [DoHandshake, StreamSocket, ParseClientAddr]) = None
      \<and> outcome plain_transport_env
          (trace new_connection @ [DoHandshake, StreamSocket, ParseClientAddr, ParseServerAddr])
          = None"
    by (simp add: plain_transport_env_def quiet_env_def)
  have w: "record_action DoHandshake new_connection
      = \<lparr>trace = [DoHandshake], keep_alive_timeout_handle = None, timers = []\<rparr>"
    by (simp add: record_action_def new_connection_def)
  show ?thesis
    using handshake_failure_and_plain_transport
        [of handshake_timeout_env new_connection "[Data ''GET'']"]
      handshake_failure_and_plain_transport
        [of plain_transport_env new_connection "[Data ''GET'']"]
      slow plain w
    by simp
qed

text \<open>
  Claim C2, as stated, fails: after a slow-read timeout the loop tears the connection
  down, and the \<^verbatim>\<open>finally\<close> clause of \<^verbatim>\<open>run\<close> tears it down again.
\<close>

theorem teardown_twice_counterexample:
  "fst (Server_run quiet_env [ReadRaises TooSlowError, ReadRaises ClosedResourceError]
         new_connection) = Return
   \<and> ReceiveSome \<in> set (trace (snd (Server_run quiet_env
         [ReadRaises TooSlowError, ReadRaises ClosedResourceError] new_connection)))
   \<and> teardowns (trace (snd (Server_run quiet_env
         [ReadRaises TooSlowError, ReadRaises ClosedResourceError] new_connection))) = 2"
  by (simp add: Server_run_def negotiate_def guarded_scope_def nursery_body_def nursery_exit_def
      protocol_call_def protocol_send_RawData protocol_send_Closed Server_close_def
      update_unfold call_eq record_action_def
      quiet_env_def new_connection_def Let_def teardowns_def)

text \<open>
  Claim C2, amended. On every exit path of \<^verbatim>\<open>run\<close> that reaches the read phase the
  teardown is executed at least once, and the last teardown ends the run; it is executed
  at most once more for every \<^verbatim>\<open>Closed\<close> fed to the engine or emitted by it, hence
  exactly once when there is none.
\<close>

theorem teardown_at_least_once:
  assumes exits: "fst (Server_run env rs w) \<noteq> Blocked"
    and reads: "ReceiveSome \<in> set (added w (snd (Server_run env rs w)))"
  shows "1 \<le> teardowns (added w (snd (Server_run env rs w)))
     \<and> teardowns (added w (snd (Server_run env rs w)))
         \<le> 1 + closings (added w (snd (Server_run env rs w)))
     \<and> (closings (added w (snd (Server_run env rs w))) = 0
          \<longrightarrow> teardowns (added w (snd (Server_run env rs w))) = 1)
     \<and> (\<exists>before. added w (snd (Server_run env rs w)) = before @ [SendEof]
                \<or> added w (snd (Server_run env rs w)) = before @ [SendEof, Aclose])"
proof -
  obtain su where su: "list_all setup_action su"
    and alt: "trace (snd (Server_run env rs w)) = trace w @ su
      \<or> (\<exists>ssl a xs cl.
           trace (snd (Server_run env rs w)) = trace w @ su @ ProtocolWrapper ssl a # xs @ cl
         \<and> teardowns xs \<le> closings xs
         \<and> (if fst (Server_run env rs w) = Blocked then cl = []
            else cl = [SendEof] \<or> cl = [SendEof, Aclose]))"
    using run_delta [of env rs w] by blast
  have s0: "ReceiveSome \<notin> set su" "teardowns su = 0" "closings su = 0"
    using setup_actions [OF su] by simp_all
  from alt show ?thesis
  proof
    assume "trace (snd (Server_run env rs w)) = trace w @ su"
    then have "added w (snd (Server_run env rs w)) = su" by (simp add: added_def)
    then show ?thesis using reads s0 by simp
  next
    assume "\<exists>ssl a xs cl.
           trace (snd (Server_run env rs w)) = trace w @ su @ ProtocolWrapper ssl a # xs @ cl
         \<and> teardowns xs \<le> closings xs
         \<and> (if fst (Server_run env rs w) = Blocked then cl = []
            else cl = [SendEof] \<or> cl = [SendEof, Aclose])"
    then obtain ssl a xs cl where
      t: "trace (snd (Server_run env rs w)) = trace w @ su @ ProtocolWrapper ssl a # xs @ cl"
      and b: "teardowns xs \<le> closings xs"
      and cl: "cl = [SendEof] \<or> cl = [SendEof, Aclose]"
      using exits by auto
    have a: "added w (snd (Server_run env rs w)) = (su @ ProtocolWrapper ssl a # xs) @ cl"
      using t by (simp add: added_def)
    have tc: "teardowns cl = 1" "closings cl = 0"
      using cl by (auto simp add: teardowns_def closings_def)
    have 1: "teardowns (added w (snd (Server_run env rs w))) = teardowns xs + 1"
      unfolding a using s0(2) tc(1) by (simp add: teardowns_def)
    have 2: "closings (added w (snd (Server_run env rs w))) = closings xs"
      unfolding a using s0(3) tc(2) by (simp add: closings_def)
    have 3: "\<exists>before. added w (snd (Server_run env rs w)) = before @ [SendEof]
                \<or> added w (snd (Server_run env rs w)) = before @ [SendEof, Aclose]"
      using a cl by blast
    show ?thesis using 1 2 3 b by simp
  qed
qed

theorem teardown_at_least_once_witness:
  "teardowns (added new_connection (snd (Server_run quiet_env [Data ''GET'', Data []]
      new_connection))) = 1"
proof -
  have run: "Server_run quiet_env [Data ''GET'', Data []] new_connection
     = (Return, \<lparr>trace = [DoHandshake, SelectedAlpnProtocol, TransportStreamSocket,
         ParseClientAddr, ParseServerAddr, ProtocolWrapper True ''h2'', Initiate, ReceiveSome,
         Handle (RawData ''GET''), ReceiveSome, Handle (RawData []), SendEof, Aclose],
         keep_alive_timeout_handle = None, timers = []\<rparr>)"
    by (simp add: Server_run_def negotiate_def guarded_scope_def nursery_body_def nursery_exit_def
      protocol_call_def protocol_send_RawData protocol_send_Closed Server_close_def
      update_unfold call_eq record_action_def
      quiet_env_def new_connection_def Let_def)
  have exits: "fst (Server_run quiet_env [Data ''GET'', Data []] new_connection) \<noteq> Blocked"
    by (simp add: run)
  have reads: "ReceiveSome \<in> set (added new_connection
      (snd (Server_run quiet_env [Data ''GET'', Data []] new_connection)))"
    by (simp add: run added_def trace_new_connection)
  have none: "closings (added new_connection
      (snd (Server_run quiet_env [Data ''GET'', Data []] new_connection))) = 0"
    by (simp add: run added_def trace_new_connection closings_def)
  show ?thesis
    using teardown_at_least_once [OF exits reads] none by blast
qed






end
